theory Spec2Isabelle
  imports Complex_Main "HOL-Library.Sublist"
begin

section \<open>Text\<close>

text \<open>
  A Python \<open>str\<close> is modelled as a \<open>string\<close> whose characters are the code points below
  256.  On that range the character classes below are the ones of Python's Unicode
  database: the decimal digits (\<open>\d\<close> of a \<open>str\<close> pattern, and what \<open>int()\<close> accepts) are
  \<open>0\<close> to \<open>9\<close>, and the white space (\<open>str.strip()\<close>, \<open>\s\<close>, \<open>str.isspace()\<close>) is the set of
  \<open>is_space\<close>.  Python's integers are unbounded and modelled as \<open>int\<close>.
\<close>

datatype py_error =
    ValueError string
  | RuntimeError string
  | KeyError
  | AttributeError
  | TypeError
  | OverflowError
  | IndexError

definition is_digit :: "char \<Rightarrow> bool" where
  "is_digit c \<longleftrightarrow> c \<in> set ''0123456789''"

definition is_space :: "char \<Rightarrow> bool" where
  "is_space c \<longleftrightarrow> (of_char c :: nat) \<in> {9, 10, 11, 12, 13, 28, 29, 30, 31, 32, 133, 160}"

definition digit_value :: "char \<Rightarrow> int" where
  "digit_value c = int (of_char c) - 48"

definition digits_value :: "string \<Rightarrow> int" where
  "digits_value ds = foldl (\<lambda>acc c. 10 * acc + digit_value c) 0 ds"

definition digit_char :: "nat \<Rightarrow> char" where
  "digit_char d = char_of (48 + d)"

text \<open>\<open>str(n)\<close> for an integer: the decimal digits, most significant first, with a minus sign
  for a negative number.\<close>

fun digits_of :: "nat \<Rightarrow> string" where
  "digits_of n = (if n < 10 then [digit_char n] else digits_of (n div 10) @ [digit_char (n mod 10)])"

declare digits_of.simps [simp del]

definition str_int :: "int \<Rightarrow> string" where
  "str_int i = (if i < 0 then CHR ''-'' # digits_of (nat (- i)) else digits_of (nat i))"

text \<open>\<open>s.strip()\<close>, \<open>s.lower()\<close>, \<open>s.split(sep)\<close> for a one-character separator, and
  \<open>s.startswith(p)\<close>.\<close>

definition strip :: "string \<Rightarrow> string" where
  "strip s = rev (dropWhile is_space (rev (dropWhile is_space s)))"

definition lower_char :: "char \<Rightarrow> char" where
  "lower_char c =
     (let n = (of_char c :: nat)
      in if (65 \<le> n \<and> n \<le> 90) \<or> (192 \<le> n \<and> n \<le> 222 \<and> n \<noteq> 215) then char_of (n + 32) else c)"

definition lower :: "string \<Rightarrow> string" where
  "lower s = map lower_char s"

fun split_on :: "char \<Rightarrow> string \<Rightarrow> string list" where
  "split_on sep [] = [[]]"
| "split_on sep (c # cs) =
     (if c = sep then [] # split_on sep cs
      else (case split_on sep cs of [] \<Rightarrow> [[c]] | w # ws \<Rightarrow> (c # w) # ws))"

definition startswith :: "string \<Rightarrow> string \<Rightarrow> bool" where
  "startswith s p \<longleftrightarrow> take (length p) s = p"

text \<open>
  \<open>int(s)\<close> for a string: white space around the literal is dropped, one sign is allowed,
  and the digits may be grouped by single underscores.  Anything else raises \<open>ValueError\<close>,
  and so does a literal of more digits than the interpreter converts: 4300, unless it is
  configured otherwise.
\<close>

definition INT_MAX_STR_DIGITS :: nat where
  "INT_MAX_STR_DIGITS = 4300"

definition int_literal_ok :: "string \<Rightarrow> bool" where
  "int_literal_ok body \<longleftrightarrow> (\<forall>g \<in> set (split_on CHR ''_'' body). g \<noteq> [] \<and> list_all is_digit g)"

definition py_int :: "string \<Rightarrow> py_error + int" where
  "py_int s =
     (case strip s of
        [] \<Rightarrow> Inl (ValueError ''invalid literal for int()'')
      | c # r \<Rightarrow>
          (let neg = (c = CHR ''-'');
               body = (if c = CHR ''-'' \<or> c = CHR ''+'' then r else c # r)
           in if int_literal_ok body
              then (if length (filter is_digit body) > INT_MAX_STR_DIGITS
                    then Inl (ValueError ''Exceeds the limit for integer string conversion'')
                    else Inr ((if neg then - 1 else 1) * digits_value (filter is_digit body)))
              else Inl (ValueError ''invalid literal for int()'')))"

section \<open>Parsing the backend's output\<close>

definition LLM_ATTRIBUTE_ERROR :: int where
  "LLM_ATTRIBUTE_ERROR = - 1"

text \<open>\<open>re.findall(r"(\d+)", output)\<close>: scanning from the left, each match takes as many
  digits as there are, and the scan goes on behind it.\<close>

function findall_digits :: "string \<Rightarrow> string list" where
  "findall_digits [] = []"
| "findall_digits (c # cs) =
     (if is_digit c then takeWhile is_digit (c # cs) # findall_digits (dropWhile is_digit cs)
      else findall_digits cs)"
  by pat_completeness auto
termination
  by (relation "measure length") (auto simp: length_dropWhile_le less_Suc_eq_le)

definition format_llm_output :: "string \<Rightarrow> int" where
  "format_llm_output output =
     (let matches = findall_digits output
      in if matches \<noteq> []
         then (case py_int (last matches) of
                 Inl e \<Rightarrow> LLM_ATTRIBUTE_ERROR
               | Inr v \<Rightarrow> v)
         else LLM_ATTRIBUTE_ERROR)"

section \<open>Data frames and the world the generator runs in\<close>

text \<open>
  A cell of a pandas \<open>DataFrame\<close>: \<open>None\<close>, the float \<open>NaN\<close> that pandas writes for a missing
  value, an integer or a string; \<open>Absent\<close> stands for a column the frame does not have, so
  that reading it is a \<open>KeyError\<close>.  A row carries the columns the generator reads, a frame is
  the list of its rows in order, each with its index label.
\<close>

datatype cell = Absent | CNone | CNaN | CInt int | CStr string

record row =
  itm_id :: cell
  rtr_id :: cell
  name :: cell
  description :: cell
  price :: cell
  calories :: cell
  allergens_col :: cell
  hours :: cell

type_synonym frame = "(nat \<times> row) list"

definition getitem :: "cell \<Rightarrow> py_error + cell" where
  "getitem c = (case c of Absent \<Rightarrow> Inl KeyError | _ \<Rightarrow> Inr c)"

text \<open>Truth value of a cell (\<open>not hours_json\<close>): \<open>None\<close>, zero and the empty string are false,
  \<open>NaN\<close> is true.\<close>

fun cell_truthy :: "cell \<Rightarrow> bool" where
  "cell_truthy (CInt i) = (i \<noteq> 0)"
| "cell_truthy (CStr s) = (s \<noteq> [])"
| "cell_truthy CNaN = True"
| "cell_truthy _ = False"

text \<open>The element-wise \<open>column != value\<close> of pandas: a missing value differs from everything.\<close>

definition cell_ne :: "cell \<Rightarrow> cell \<Rightarrow> bool" where
  "cell_ne a b \<longleftrightarrow> a \<in> {Absent, CNone, CNaN} \<or> b \<in> {Absent, CNone, CNaN} \<or> a \<noteq> b"

text \<open>What an f-string prints for a cell.\<close>

fun cell_text :: "cell \<Rightarrow> string" where
  "cell_text (CInt i) = str_int i"
| "cell_text (CStr s) = s"
| "cell_text CNaN = ''nan''"
| "cell_text _ = ''None''"

text \<open>
  The values \<open>json.loads\<close> returns.  A float is its exact rational value, an infinity or
  \<open>NaN\<close>; an object is the list of its items.
\<close>

datatype pyfloat = Finite rat | PosInf | NegInf | NotANumber

datatype json =
    JNull
  | JBool bool
  | JInt int
  | JFloat pyfloat
  | JStr string
  | JArr "json list"
  | JObj "(string \<times> json) list"

fun json_truthy :: "json \<Rightarrow> bool" where
  "json_truthy JNull = False"
| "json_truthy (JBool b) = b"
| "json_truthy (JInt i) = (i \<noteq> 0)"
| "json_truthy (JFloat f) = (f \<noteq> Finite 0)"
| "json_truthy (JStr s) = (s \<noteq> [])"
| "json_truthy (JArr xs) = (xs \<noteq> [])"
| "json_truthy (JObj kv) = (kv \<noteq> [])"

fun json_len :: "json \<Rightarrow> py_error + nat" where
  "json_len (JStr s) = Inr (length s)"
| "json_len (JArr xs) = Inr (length xs)"
| "json_len (JObj kv) = Inr (length kv)"
| "json_len _ = Inl TypeError"

text \<open>\<open>v[i]\<close> for a position \<open>i\<close> below \<open>len(v)\<close>; the keys of a JSON object are strings, so an
  integer key is missing.\<close>

fun json_index :: "json \<Rightarrow> nat \<Rightarrow> py_error + json" where
  "json_index (JArr xs) i = (if i < length xs then Inr (xs ! i) else Inl IndexError)"
| "json_index (JStr s) i = (if i < length s then Inr (JStr [s ! i]) else Inl IndexError)"
| "json_index (JObj kv) i = Inl KeyError"
| "json_index _ i = Inl TypeError"

text \<open>\<open>v <= t\<close> and \<open>v >= t\<close> for an integer \<open>t\<close>: numbers compare by value (a boolean is 0 or
  1, nothing compares with \<open>NaN\<close>), anything else is a \<open>TypeError\<close>.\<close>

fun json_le_int :: "json \<Rightarrow> int \<Rightarrow> py_error + bool" where
  "json_le_int (JInt i) t = Inr (i \<le> t)"
| "json_le_int (JBool b) t = Inr ((if b then 1 else 0) \<le> t)"
| "json_le_int (JFloat (Finite q)) t = Inr (q \<le> of_int t)"
| "json_le_int (JFloat NegInf) t = Inr True"
| "json_le_int (JFloat _) t = Inr False"
| "json_le_int _ t = Inl TypeError"

fun json_ge_int :: "json \<Rightarrow> int \<Rightarrow> py_error + bool" where
  "json_ge_int (JInt i) t = Inr (i \<ge> t)"
| "json_ge_int (JBool b) t = Inr ((if b then 1 else 0) \<ge> t)"
| "json_ge_int (JFloat (Finite q)) t = Inr (q \<ge> of_int t)"
| "json_ge_int (JFloat PosInf) t = Inr True"
| "json_ge_int (JFloat _) t = Inr False"
| "json_ge_int _ t = Inl TypeError"

text \<open>
  The world: the \<open>DataFrame\<close> objects that exist (a reference is a position in \<open>frames\<close>, a new
  object goes to the end), the random numbers still to be drawn, the text-generation backend
  (its reply to the n-th call, given system text and prompt) with the calls made so far, and
  the library's \<open>json.loads\<close>.
\<close>

record world =
  frames :: "frame list"
  rng :: "nat \<Rightarrow> nat"
  llm :: "nat \<Rightarrow> string \<Rightarrow> string \<Rightarrow> string"
  calls :: "(string \<times> string) list"
  json_loads :: "string \<Rightarrow> py_error + json"

definition frame_at :: "world \<Rightarrow> nat \<Rightarrow> frame" where
  "frame_at w r = frames w ! r"

definition alloc :: "frame \<Rightarrow> world \<Rightarrow> nat \<times> world" where
  "alloc f w = (length (frames w), w\<lparr>frames := frames w @ [f]\<rparr>)"

definition put :: "nat \<Rightarrow> frame \<Rightarrow> world \<Rightarrow> world" where
  "put r f w = w\<lparr>frames := (frames w)[r := f]\<rparr>"

section \<open>The candidate sampler\<close>

text \<open>
  \<open>random.sample(population, k)\<close> returns \<open>k\<close> elements drawn without replacement, and raises
  \<open>ValueError\<close> when \<open>k\<close> is negative or larger than the population.  The draw takes an element
  at a random position out of the pool, \<open>k\<close> times.
\<close>

fun sample_from :: "(nat \<Rightarrow> nat) \<Rightarrow> 'a list \<Rightarrow> nat \<Rightarrow> 'a list" where
  "sample_from rnd pool 0 = []"
| "sample_from rnd pool (Suc k) =
     (if pool = [] then []
      else (let j = rnd 0 mod length pool
            in pool ! j # sample_from (\<lambda>i. rnd (Suc i)) (take j pool @ drop (Suc j) pool) k))"

definition random_sample :: "nat list \<Rightarrow> int \<Rightarrow> world \<Rightarrow> (py_error + nat list) \<times> world" where
  "random_sample population k w =
     (if k < 0 \<or> int (length population) < k
      then (Inl (ValueError ''Sample larger than population or is negative''), w)
      else (Inr (sample_from (rng w) population (nat k)), w\<lparr>rng := (\<lambda>i. rng w (i + nat k))\<rparr>))"

definition limit_scope :: "nat \<Rightarrow> int \<Rightarrow> world \<Rightarrow> (py_error + nat list) \<times> world" where
  "limit_scope items num_choices w =
     (let num_items = length (frame_at w items);
          choices = [0..<num_items]
      in if int num_items > num_choices then random_sample choices num_choices w
         else (Inr choices, w))"

section \<open>The candidate filter\<close>

text \<open>The test of \<open>filter_allergens\<close> on one row: some allergen of the user's list is among the
  item's tags, both split at commas, stripped and lower-cased.\<close>

definition allergen_hit :: "string \<Rightarrow> string \<Rightarrow> bool" where
  "allergen_hit item_text allergens =
     (let item_allergens = map (\<lambda>x. lower (strip x)) (split_on CHR '','' item_text);
          user_allergens = map (\<lambda>x. lower (strip x)) (split_on CHR '','' allergens)
      in list_ex (\<lambda>allergen. allergen \<in> set item_allergens) user_allergens)"

text \<open>The loop of \<open>filter_allergens\<close> runs over the rows the frame had at the start and drops
  from the object itself (\<open>inplace=True\<close>); dropping a label that is gone is a \<open>KeyError\<close>.\<close>

fun drop_loop :: "(nat \<times> row) list \<Rightarrow> string \<Rightarrow> nat \<Rightarrow> world \<Rightarrow> (py_error + nat) \<times> world" where
  "drop_loop [] allergens menu_items w = (Inr menu_items, w)"
| "drop_loop ((index, rows) # rest) allergens menu_items w =
     (case getitem (allergens_col rows) of
        Inl e \<Rightarrow> (Inl e, w)
      | Inr CNone \<Rightarrow> drop_loop rest allergens menu_items w
      | Inr (CStr s) \<Rightarrow>
          (if allergen_hit s allergens
           then (if index \<in> fst ` set (frame_at w menu_items)
                 then drop_loop rest allergens menu_items
                        (put menu_items (filter (\<lambda>(i, r). i \<noteq> index) (frame_at w menu_items)) w)
                 else (Inl KeyError, w))
           else drop_loop rest allergens menu_items w)
      | Inr _ \<Rightarrow> (Inl AttributeError, w))"

definition filter_allergens :: "nat \<Rightarrow> string \<Rightarrow> world \<Rightarrow> (py_error + nat) \<times> world" where
  "filter_allergens menu_items allergens w =
     (if allergens = [] then (Inr menu_items, w)
      else drop_loop (frame_at w menu_items) allergens menu_items w)"

text \<open>The inner loop of \<open>filter_closed_restaurants\<close> over the pairs of \<open>opening_times\<close>.\<close>

fun open_loop :: "json \<Rightarrow> int \<Rightarrow> nat list \<Rightarrow> bool \<Rightarrow> py_error + bool" where
  "open_loop opening_times time [] is_open = Inr is_open"
| "open_loop opening_times time (x # xs) is_open =
     (case json_index opening_times (x * 2) of
        Inl e \<Rightarrow> Inl e
      | Inr a \<Rightarrow>
         (case json_le_int a time of
            Inl e \<Rightarrow> Inl e
          | Inr False \<Rightarrow> open_loop opening_times time xs is_open
          | Inr True \<Rightarrow>
             (case json_index opening_times (x * 2 + 1) of
                Inl e \<Rightarrow> Inl e
              | Inr b \<Rightarrow>
                 (case json_ge_int b time of
                    Inl e \<Rightarrow> Inl e
                  | Inr True \<Rightarrow> open_loop opening_times time xs True
                  | Inr False \<Rightarrow> open_loop opening_times time xs is_open))))"

text \<open>
  The body of the \<open>try\<close> for one row: \<open>Inr True\<close> when the row's restaurant is to be removed,
  \<open>Inr False\<close> when the row is passed over, \<open>Inl\<close> the exception that the \<open>except\<close> swallows.
\<close>

definition row_closed :: "(string \<Rightarrow> py_error + json) \<Rightarrow> row \<Rightarrow> string \<Rightarrow> int \<Rightarrow> py_error + bool" where
  "row_closed loads rows weekday time =
     (case getitem (hours rows) of
        Inl e \<Rightarrow> Inl e
      | Inr hours_json \<Rightarrow>
          if \<not> cell_truthy hours_json then Inr False
          else (case hours_json of
                  CStr s \<Rightarrow>
                    if startswith (strip s) ''{''
                    then (case loads s of
                            Inl e \<Rightarrow> Inl e
                          | Inr (JObj kv) \<Rightarrow>
                              (let opening_times = (case map_of kv weekday of None \<Rightarrow> JArr [] | Some v \<Rightarrow> v)
                               in if \<not> json_truthy opening_times then Inr True
                                  else (case json_len opening_times of
                                          Inl e \<Rightarrow> Inl e
                                        | Inr n \<Rightarrow>
                                            if n mod 2 = 1 then Inr True
                                            else if n \<ge> 2
                                            then (case open_loop opening_times time [0..<n div 2] False of
                                                    Inl e \<Rightarrow> Inl e
                                                  | Inr is_open \<Rightarrow> Inr (\<not> is_open))
                                            else Inr True))
                          | Inr _ \<Rightarrow> Inl AttributeError)
                    else Inr False
                | _ \<Rightarrow> Inl AttributeError))"

text \<open>The loop of \<open>filter_closed_restaurants\<close> runs over the rows of the frame it was given;
  each removal builds a new frame without the rows of that restaurant and goes on with it.\<close>

fun closed_loop :: "(nat \<times> row) list \<Rightarrow> string \<Rightarrow> int \<Rightarrow> nat \<Rightarrow> world \<Rightarrow> nat \<times> world" where
  "closed_loop [] weekday time restaurant w = (restaurant, w)"
| "closed_loop ((index, rows) # rest) weekday time restaurant w =
     (case row_closed (json_loads w) rows weekday time of
        Inr True \<Rightarrow>
          (case getitem (rtr_id rows) of
             Inl e \<Rightarrow> closed_loop rest weekday time restaurant w
           | Inr v \<Rightarrow>
               (let (restaurant', w') =
                      alloc (filter (\<lambda>(i, r). cell_ne (rtr_id r) v) (frame_at w restaurant)) w
                in closed_loop rest weekday time restaurant' w'))
      | _ \<Rightarrow> closed_loop rest weekday time restaurant w)"

definition filter_closed_restaurants :: "nat \<Rightarrow> string \<Rightarrow> int \<Rightarrow> world \<Rightarrow> nat \<times> world" where
  "filter_closed_restaurants restaurant weekday time w =
     closed_loop (frame_at w restaurant) weekday time restaurant w"

section \<open>The generator\<close>

text \<open>
  \<open>pd.merge(left, right, on="rtr_id", how="left")\<close> builds a new frame with a fresh index:
  every row of \<open>left\<close>, in order, once for each row of \<open>right\<close> with the same key, and once
  with \<open>NaN\<close> in the columns of \<open>right\<close> when there is none.  The right frame is the one of the
  constructor's query, with the columns \<open>rtr_id\<close> and \<open>hours\<close>; a left frame that has an
  \<open>hours\<close> column of its own gets both renamed, so that no \<open>hours\<close> column is left.
\<close>

definition merge_rows :: "frame \<Rightarrow> frame \<Rightarrow> row list" where
  "merge_rows left right =
     concat (map (\<lambda>(i, l).
        (case filter (\<lambda>(j, r). rtr_id r = rtr_id l) right of
           [] \<Rightarrow> [l\<lparr>hours := (if hours l = Absent then CNaN else Absent)\<rparr>]
         | ms \<Rightarrow> map (\<lambda>(j, r). l\<lparr>hours := (if hours l = Absent then hours r else Absent)\<rparr>) ms))
        left)"

definition pd_merge :: "nat \<Rightarrow> nat \<Rightarrow> world \<Rightarrow> (py_error + nat) \<times> world" where
  "pd_merge left right w =
     (if list_ex (\<lambda>(i, l). rtr_id l = Absent) (frame_at w left) \<or>
         list_ex (\<lambda>(j, r). rtr_id r = Absent) (frame_at w right)
      then (Inl KeyError, w)
      else (let (merged, w') = alloc (enumerate 0 (merge_rows (frame_at w left) (frame_at w right))) w
            in (Inr merged, w')))"

definition MAX_LLM_TRIES :: nat where
  "MAX_LLM_TRIES = 3"

definition ITEM_CHOICES :: int where
  "ITEM_CHOICES = 10"

definition DAYS_OF_WEEK :: "string list" where
  "DAYS_OF_WEEK = [''Mon'', ''Tue'', ''Wed'', ''Thu'', ''Fri'', ''Sat'', ''Sun'']"

definition SYSTEM_TEMPLATE :: string where
  "SYSTEM_TEMPLATE = ''You are a health and nutrition expert planning meals for a customer based on their preferences. Use only the menu items provided under CSV CONTEXT.''"

definition PROMPT_TEMPLATE :: string where
  "PROMPT_TEMPLATE =
     ''Choose a meal for a customer based on their preferences: {preferences}'' @ [CHR 0x0A] @
     ''Make sure that the item makes sense for {meal}.'' @ [CHR 0x0A] @
     ''Provide only the itm_id as output. Do not provide names or descriptions.'' @ [CHR 0x0A] @
     [CHR 0x0A] @
     ''CSV CONTEXT:'' @ [CHR 0x0A] @
     ''{context}''"

definition BREAKFAST_TIME :: int where
  "BREAKFAST_TIME = 1000"

definition LUNCH_TIME :: int where
  "LUNCH_TIME = 1400"

definition DINNER_TIME :: int where
  "DINNER_TIME = 2000"

definition get_meal_and_order_time :: "int \<Rightarrow> py_error + string \<times> int" where
  "get_meal_and_order_time meal_number =
     (if meal_number = 1 then Inr (''breakfast'', BREAKFAST_TIME)
      else if meal_number = 2 then Inr (''lunch'', LUNCH_TIME)
      else if meal_number = 3 then Inr (''dinner'', DINNER_TIME)
      else Inl (ValueError ''The meal number must be 1, 2, or 3''))"

text \<open>The generator object holds references to its two catalog frames; the constructor
  stores the results of its two queries as new objects.\<close>

record menu_generator =
  menu_items :: nat
  restaurants :: nat

definition new_menu_generator :: "frame \<Rightarrow> frame \<Rightarrow> world \<Rightarrow> menu_generator \<times> world" where
  "new_menu_generator item_query restaurant_query w =
     (let (m, w1) = alloc item_query w;
          (r, w2) = alloc restaurant_query w1
      in (\<lparr>menu_items = m, restaurants = r\<rparr>, w2))"

text \<open>The loop of \<open>__get_context\<close> over the chosen positions: \<open>combined.iloc[x]\<close>, one line of
  context and the id appended to \<open>item_ids\<close>.\<close>

fun context_loop :: "frame \<Rightarrow> nat list \<Rightarrow> string \<Rightarrow> cell list \<Rightarrow> py_error + string \<times> cell list" where
  "context_loop combined [] context_data item_ids = Inr (context_data, item_ids)"
| "context_loop combined (x # xs) context_data item_ids =
     (if x < length combined
      then (let r = snd (combined ! x)
            in if Absent \<in> {itm_id r, name r, description r, price r, calories r} then Inl KeyError
               else context_loop combined xs
                      (context_data @ cell_text (itm_id r) @ '','' @ cell_text (name r) @ '','' @
                       cell_text (description r) @ '','' @ cell_text (price r) @ '','' @
                       cell_text (calories r) @ [CHR 0x0A])
                      (item_ids @ [itm_id r]))
      else Inl IndexError)"

definition get_context ::
  "menu_generator \<Rightarrow> string \<Rightarrow> string \<Rightarrow> int \<Rightarrow> int \<Rightarrow> world \<Rightarrow> (py_error + string \<times> cell list) \<times> world" where
  "get_context self allergens weekday order_time num_choices w =
     (case pd_merge (menu_items self) (restaurants self) w of
        (Inl e, w1) \<Rightarrow> (Inl e, w1)
      | (Inr merged, w1) \<Rightarrow>
          (let (open_only, w2) = filter_closed_restaurants merged weekday order_time w1
           in case filter_allergens open_only allergens w2 of
                (Inl e, w3) \<Rightarrow> (Inl e, w3)
              | (Inr combined, w3) \<Rightarrow>
                  (case limit_scope combined num_choices w3 of
                     (Inl e, w4) \<Rightarrow> (Inl e, w4)
                   | (Inr choices, w4) \<Rightarrow>
                       (case context_loop (frame_at w4 combined) choices
                               (''item_id,name,description,price,calories'' @ [CHR 0x0A]) [] of
                          Inl e \<Rightarrow> (Inl e, w4)
                        | Inr r \<Rightarrow> (Inr r, w4)))))"

text \<open>\<open>s.replace(old, new)\<close>: the occurrences of \<open>old\<close> from the left, not overlapping.\<close>

function replace :: "string \<Rightarrow> string \<Rightarrow> string \<Rightarrow> string" where
  "replace old new s =
     (if old = [] then new @ concat (map (\<lambda>c. c # new) s)
      else if s = [] then []
      else if take (length old) s = old then new @ replace old new (drop (length old) s)
      else hd s # replace old new (tl s))"
  by pat_completeness auto
termination
  by (relation "measure (\<lambda>(old, new, s). length s)") (auto simp: neq_Nil_conv)

declare replace.simps [simp del]

text \<open>One call of the backend: the reply to this call, and the call put on record.\<close>

definition generate :: "string \<Rightarrow> string \<Rightarrow> world \<Rightarrow> string \<times> world" where
  "generate system prompt w =
     (llm w (length (calls w)) system prompt, w\<lparr>calls := calls w @ [(system, prompt)]\<rparr>)"

text \<open>The prompt of one try: the template with preferences, context and meal filled in, in
  this order.\<close>

definition make_prompt :: "string \<Rightarrow> string \<Rightarrow> string \<Rightarrow> string" where
  "make_prompt preferences context meal =
     replace ''{meal}'' meal
       (replace ''{context}'' context
         (replace ''{preferences}'' preferences PROMPT_TEMPLATE))"

text \<open>
  One try of the retry loop of \<open>__pick_menu_item\<close>: the context for the current number of
  choices, the call of the backend, the parse and the validation.  The try raises, or
  chooses an id, or is invalid and leaves the raw output of the backend.
\<close>

datatype outcome = Raised py_error | Chosen int | Invalid string

definition attempt ::
  "menu_generator \<Rightarrow> string \<Rightarrow> string \<Rightarrow> string \<Rightarrow> string \<Rightarrow> int \<Rightarrow> int \<Rightarrow> world \<Rightarrow> outcome \<times> world" where
  "attempt self preferences allergens weekday meal order_time num_choices w =
     (case get_context self allergens weekday order_time num_choices w of
        (Inl e, w1) \<Rightarrow> (Raised e, w1)
      | (Inr (context, item_ids), w1) \<Rightarrow>
          (let (llm_output, w2) = generate SYSTEM_TEMPLATE (make_prompt preferences context meal) w1;
               output = format_llm_output llm_output
           in if output > 0 \<and> CInt output \<in> set item_ids then (Chosen output, w2)
              else (Invalid llm_output, w2)))"

text \<open>The loop, over the tries still to be made: an invalid try adds \<open>ITEM_CHOICES\<close> to the
  number of choices; with no try left, the error carries the last raw output.\<close>

fun pick_loop ::
  "nat \<Rightarrow> menu_generator \<Rightarrow> string \<Rightarrow> string \<Rightarrow> string \<Rightarrow> string \<Rightarrow> int \<Rightarrow> int \<Rightarrow> string \<Rightarrow> world
   \<Rightarrow> (py_error + int) \<times> world" where
  "pick_loop 0 self preferences allergens weekday meal order_time num_choices llm_output w =
     (Inl (RuntimeError (''LLM has failed '' @ str_int (int MAX_LLM_TRIES) @
                         '' times to generate a meal. Output: '' @ llm_output)), w)"
| "pick_loop (Suc tries) self preferences allergens weekday meal order_time num_choices llm_output w =
     (case attempt self preferences allergens weekday meal order_time num_choices w of
        (Raised e, w') \<Rightarrow> (Inl e, w')
      | (Chosen output, w') \<Rightarrow> (Inr output, w')
      | (Invalid llm_output', w') \<Rightarrow>
          pick_loop tries self preferences allergens weekday meal order_time
            (num_choices + ITEM_CHOICES) llm_output' w')"

definition pick_menu_item ::
  "menu_generator \<Rightarrow> string \<Rightarrow> string \<Rightarrow> string \<Rightarrow> int \<Rightarrow> world \<Rightarrow> (py_error + int) \<times> world" where
  "pick_menu_item self preferences allergens weekday meal_number w =
     (case get_meal_and_order_time meal_number of
        Inl e \<Rightarrow> (Inl e, w)
      | Inr (meal, order_time) \<Rightarrow>
          pick_loop MAX_LLM_TRIES self preferences allergens weekday meal order_time ITEM_CHOICES [] w)"

section \<open>Dates\<close>

text \<open>The proleptic Gregorian calendar of \<open>datetime\<close>, years 1 to 9999.\<close>

definition is_leap :: "int \<Rightarrow> bool" where
  "is_leap y \<longleftrightarrow> y mod 4 = 0 \<and> (y mod 100 \<noteq> 0 \<or> y mod 400 = 0)"

definition days_in_month :: "int \<Rightarrow> int \<Rightarrow> int" where
  "days_in_month y m =
     (if m = 2 then (if is_leap y then 29 else 28)
      else if m \<in> {4, 6, 9, 11} then 30 else 31)"

definition days_before_year :: "int \<Rightarrow> int" where
  "days_before_year y = (y - 1) * 365 + (y - 1) div 4 - (y - 1) div 100 + (y - 1) div 400"

definition days_before_month :: "int \<Rightarrow> int \<Rightarrow> int" where
  "days_before_month y m = sum_list (map (days_in_month y) [1..m - 1])"

definition toordinal :: "int \<times> int \<times> int \<Rightarrow> int" where
  "toordinal d = (case d of (y, m, dd) \<Rightarrow> days_before_year y + days_before_month y m + dd)"

definition valid_date :: "int \<times> int \<times> int \<Rightarrow> bool" where
  "valid_date d \<longleftrightarrow>
     (case d of (y, m, dd) \<Rightarrow> 1 \<le> y \<and> y \<le> 9999 \<and> 1 \<le> m \<and> m \<le> 12 \<and> 1 \<le> dd \<and> dd \<le> days_in_month y m)"

definition weekday_of :: "int \<times> int \<times> int \<Rightarrow> nat" where
  "weekday_of d = nat ((toordinal d + 6) mod 7)"

text \<open>\<open>date + timedelta(days=1)\<close>; there is no day after 9999-12-31.\<close>

definition add_one_day :: "int \<times> int \<times> int \<Rightarrow> py_error + int \<times> int \<times> int" where
  "add_one_day d =
     (case d of (y, m, dd) \<Rightarrow>
        if dd < days_in_month y m then Inr (y, m, dd + 1)
        else if m < 12 then Inr (y, m + 1, 1)
        else if y < 9999 then Inr (y + 1, 1, 1)
        else Inl OverflowError)"

definition zero_pad :: "nat \<Rightarrow> string \<Rightarrow> string" where
  "zero_pad width s = replicate (width - length s) CHR ''0'' @ s"

text \<open>\<open>strftime("%Y-%m-%d")\<close> as the C library of Linux prints it: month and day with two
  digits, the year with the digits it has, so that a year below 1000 has fewer than four.\<close>

definition strftime_ymd :: "int \<times> int \<times> int \<Rightarrow> string" where
  "strftime_ymd d =
     (case d of (y, m, dd) \<Rightarrow>
        str_int y @ ''-'' @ zero_pad 2 (str_int m) @ ''-'' @ zero_pad 2 (str_int dd))"

definition get_weekday_and_increment :: "string \<Rightarrow> py_error + string \<times> string" where
  "get_weekday_and_increment date =
     (case map py_int (split_on CHR ''-'' date) of
        [Inr year, Inr month, Inr day] \<Rightarrow>
          if valid_date (year, month, day)
          then (case add_one_day (year, month, day) of
                  Inl e \<Rightarrow> Inl e
                | Inr next_day \<Rightarrow>
                    Inr (strftime_ymd next_day, DAYS_OF_WEEK ! weekday_of (year, month, day)))
          else Inl (ValueError ''Unable to parse date string. Ensure it is formatted properly as to YYYY-MM-DD format'')
      | _ \<Rightarrow> Inl (ValueError ''invalid literal for int() or wrong number of values to unpack''))"

section \<open>The plan assembler\<close>

text \<open>
  The pattern \<open>\[{date},\d+,{meal_number}\]\<close> that \<open>update_menu\<close> searches for.  The date is
  put into the pattern as it is; of the characters that a date accepted by
  \<open>get_weekday_and_increment\<close> can have, only \<open>+\<close> means something to \<open>re\<close>: it repeats what is
  before it.  A pattern is a list of atoms, each taken once or at least once.
\<close>

datatype atom = Lit char | Digit

fun atom_ok :: "atom \<Rightarrow> char \<Rightarrow> bool" where
  "atom_ok (Lit a) c = (a = c)"
| "atom_ok Digit c = is_digit c"

fun pattern_add :: "(atom \<times> bool) list \<Rightarrow> string \<Rightarrow> (atom \<times> bool) list" where
  "pattern_add p [] = p"
| "pattern_add p (c # cs) =
     (if c = CHR ''+'' \<and> p \<noteq> [] then pattern_add (butlast p @ [(fst (last p), True)]) cs
      else pattern_add (p @ [(Lit c, False)]) cs)"

definition entry_pattern :: "string \<Rightarrow> int \<Rightarrow> (atom \<times> bool) list" where
  "entry_pattern date meal_number =
     pattern_add [(Lit CHR ''['', False)] date @
     [(Lit CHR '','', False), (Digit, True), (Lit CHR '','', False)] @
     map (\<lambda>c. (Lit c, False)) (str_int meal_number) @
     [(Lit CHR '']'', False)]"

text \<open>Whether the pattern matches at the start of the text.\<close>

function match_here :: "(atom \<times> bool) list \<Rightarrow> string \<Rightarrow> bool" where
  "match_here [] s = True"
| "match_here ((a, many) # p) [] = False"
| "match_here ((a, many) # p) (c # cs) =
     (atom_ok a c \<and> (match_here p cs \<or> (many \<and> match_here ((a, many) # p) cs)))"
  by pat_completeness auto
termination
  by (relation "measure (\<lambda>(p, s). length s)") auto

text \<open>\<open>re.search\<close>: the pattern matches somewhere.\<close>

fun re_search :: "(atom \<times> bool) list \<Rightarrow> string \<Rightarrow> bool" where
  "re_search p [] = match_here p []"
| "re_search p (c # cs) = (match_here p (c # cs) \<or> re_search p cs)"

text \<open>The text of a new entry, and the plan with it appended.\<close>

definition new_entry :: "string \<Rightarrow> int \<Rightarrow> int \<Rightarrow> string" where
  "new_entry date itm_id' meal_number = ''['' @ date @ '','' @ str_int itm_id' @ '','' @ str_int meal_number @ '']''"

definition append_entry :: "string \<Rightarrow> string \<Rightarrow> string" where
  "append_entry menu entry = (if length menu > 0 then menu @ '','' @ entry else entry)"

text \<open>The inner loop of \<open>update_menu\<close> over the meal numbers of one day.\<close>

fun meal_loop ::
  "menu_generator \<Rightarrow> string \<Rightarrow> string \<Rightarrow> string \<Rightarrow> string \<Rightarrow> int list \<Rightarrow> string \<Rightarrow> world
   \<Rightarrow> (py_error + string) \<times> world" where
  "meal_loop self preferences allergens date current_weekday [] menu w = (Inr menu, w)"
| "meal_loop self preferences allergens date current_weekday (meal_number # rest) menu w =
     (if re_search (entry_pattern date meal_number) menu
      then meal_loop self preferences allergens date current_weekday rest menu w
      else (case pick_menu_item self preferences allergens current_weekday meal_number w of
              (Inl e, w') \<Rightarrow> (Inl e, w')
            | (Inr itm_id', w') \<Rightarrow>
                meal_loop self preferences allergens date current_weekday rest
                  (append_entry menu (new_entry date itm_id' meal_number)) w'))"

text \<open>The outer loop over the days still to be filled.\<close>

fun day_loop ::
  "nat \<Rightarrow> menu_generator \<Rightarrow> string \<Rightarrow> string \<Rightarrow> string \<Rightarrow> string \<Rightarrow> string \<Rightarrow> int list \<Rightarrow> string \<Rightarrow> world
   \<Rightarrow> (py_error + string) \<times> world" where
  "day_loop 0 self preferences allergens date next_date current_weekday meal_numbers menu w = (Inr menu, w)"
| "day_loop (Suc days) self preferences allergens date next_date current_weekday meal_numbers menu w =
     (case meal_loop self preferences allergens date current_weekday meal_numbers menu w of
        (Inl e, w') \<Rightarrow> (Inl e, w')
      | (Inr menu', w') \<Rightarrow>
          (case get_weekday_and_increment next_date of
             Inl e \<Rightarrow> (Inl e, w')
           | Inr (next_date', current_weekday') \<Rightarrow>
               day_loop days self preferences allergens next_date next_date' current_weekday'
                 meal_numbers menu' w'))"

definition update_menu ::
  "menu_generator \<Rightarrow> string option \<Rightarrow> string \<Rightarrow> string \<Rightarrow> string \<Rightarrow> int list \<Rightarrow> int \<Rightarrow> string \<Rightarrow> world
   \<Rightarrow> (py_error + string) \<times> world" where
  "update_menu self menu preferences allergens date meal_numbers number_of_days goal w =
     (let preferences' = (if goal \<noteq> [] then ''GOAL: '' @ goal @ ''. '' @ preferences else preferences)
      in case get_weekday_and_increment date of
           Inl e \<Rightarrow> (Inl e, w)
         | Inr (next_date, current_weekday) \<Rightarrow>
             day_loop (nat number_of_days) self preferences' allergens date next_date current_weekday
               meal_numbers (case menu of None \<Rightarrow> [] | Some m \<Rightarrow> m) w)"

section \<open>Reading a plan back\<close>

text \<open>
  The pattern of \<open>parse_generated_menu\<close>,
  \<open>\[\s*(\d{4}-\d{2}-\d{2})\s*,\s*([0-9]+)\s*(?:,\s*([123])\s*)?\]\<close>, matched at the start of
  a text: the three groups (an unmatched group is the empty string) and the text behind the
  match.  No part of the pattern can give back a character to the part after it, so the
  match is found going forward.
\<close>

definition date_shaped :: "string \<Rightarrow> bool" where
  "date_shaped d \<longleftrightarrow>
     length d = 10 \<and> list_all is_digit (take 4 d) \<and> d ! 4 = CHR ''-'' \<and>
     list_all is_digit (take 2 (drop 5 d)) \<and> d ! 7 = CHR ''-'' \<and> list_all is_digit (drop 8 d)"

definition match_tail :: "string \<Rightarrow> (string \<times> string) option" where
  "match_tail s =
     (case dropWhile is_space s of
        c # rest \<Rightarrow>
          if c = CHR '']'' then Some ([], rest)
          else if c = CHR '','' then
            (case dropWhile is_space rest of
               m # rest' \<Rightarrow>
                 if m \<in> set ''123'' then
                   (case dropWhile is_space rest' of
                      b # rest'' \<Rightarrow> if b = CHR '']'' then Some ([m], rest'') else None
                    | [] \<Rightarrow> None)
                 else None
             | [] \<Rightarrow> None)
          else None
      | [] \<Rightarrow> None)"

definition match_id :: "string \<Rightarrow> (string \<times> string \<times> string) option" where
  "match_id s =
     (let mid = takeWhile is_digit s
      in if mid = [] then None
         else (case match_tail (dropWhile is_digit s) of
                 None \<Rightarrow> None
               | Some (meal, rest) \<Rightarrow> Some (mid, meal, rest)))"

definition match_date :: "string \<Rightarrow> ((string \<times> string \<times> string) \<times> string) option" where
  "match_date s =
     (let d = take 10 s
      in if \<not> date_shaped d then None
         else (case dropWhile is_space (drop 10 s) of
                 [] \<Rightarrow> None
               | k # s' \<Rightarrow>
                   if k \<noteq> CHR '','' then None
                   else (case match_id (dropWhile is_space s') of
                           None \<Rightarrow> None
                         | Some (mid, meal, rest) \<Rightarrow> Some ((d, mid, meal), rest))))"

definition match_entry :: "string \<Rightarrow> ((string \<times> string \<times> string) \<times> string) option" where
  "match_entry s =
     (case s of
        [] \<Rightarrow> None
      | c # s' \<Rightarrow> if c \<noteq> CHR ''['' then None else match_date (dropWhile is_space s'))"

text \<open>\<open>re.findall\<close> with this pattern: the groups of each match, from the left; the scan goes
  on behind a match, and one character further where there is none.\<close>

function findall_entries :: "string \<Rightarrow> (string \<times> string \<times> string) list" where
  "findall_entries [] = []"
| "findall_entries (c # cs) =
     (case match_entry (c # cs) of
        Some (groups, rest) \<Rightarrow> groups # findall_entries rest
      | None \<Rightarrow> findall_entries cs)"
  by pat_completeness auto
termination
proof (relation "measure length")
  show "wf (measure length)" by simp
next
  fix c :: char and cs
  show "(cs, c # cs) \<in> measure length" by simp
next
  fix c :: char and cs x2 groups rest
  assume m: "match_entry (c # cs) = Some x2" and x2: "(groups, rest) = x2"
  have sp: "length (dropWhile is_space t) \<le> length t" for t
    by (simp add: length_dropWhile_le)
  have dg: "length (dropWhile is_digit t) \<le> length t" for t
    by (simp add: length_dropWhile_le)
  have tail: "length r \<le> length s" if a: "match_tail s = Some (m, r)" for s m r
  proof (cases "dropWhile is_space s")
    case Nil
    with a show ?thesis by (simp add: match_tail_def)
  next
    case (Cons b t)
    have t: "length t \<le> length s" using sp[of s] Cons by simp
    show ?thesis
    proof (cases "b = CHR '']''")
      case True
      with a Cons have "r = t" by (simp add: match_tail_def)
      with t show ?thesis by simp
    next
      case False
      with a Cons obtain q u v where
        1: "dropWhile is_space t = q # u" and 2: "dropWhile is_space u = CHR '']'' # v" and 3: "r = v"
        by (auto simp: match_tail_def split: list.splits if_splits)
      have "length u \<le> length t" using sp[of t] 1 by simp
      moreover have "length v \<le> length u" using sp[of u] 2 by simp
      ultimately show ?thesis using t 3 by simp
    qed
  qed
  have mid: "length r \<le> length s" if a: "match_id s = Some (i, m, r)" for s i m r
  proof -
    from a have "match_tail (dropWhile is_digit s) = Some (m, r)"
      by (simp add: match_id_def Let_def split: if_splits option.splits)
    from tail[OF this] dg[of s] show ?thesis by simp
  qed
  have dat: "length r \<le> length s" if a: "match_date s = Some (g, r)" for s g r
  proof -
    from a obtain k s' i m where
      1: "dropWhile is_space (drop 10 s) = k # s'" and 2: "match_id (dropWhile is_space s') = Some (i, m, r)"
      by (auto simp: match_date_def Let_def split: if_splits option.splits list.splits)
    have "length s' \<le> length s" using sp[of "drop 10 s"] 1 by simp
    with mid[OF 2] sp[of s'] show ?thesis by simp
  qed
  from m x2 have "match_date (dropWhile is_space cs) = Some (groups, rest)"
    by (auto simp: match_entry_def split: if_splits)
  from dat[OF this] sp[of cs] show "(rest, c # cs) \<in> measure length" by simp
qed

text \<open>The loop of \<open>parse_generated_menu\<close> over the matches; the dictionary maps a date to the
  list of its entries, each the pair of \<open>itm_id\<close> and \<open>meal\<close>.\<close>

fun collect_entries ::
  "(string \<times> string \<times> string) list \<Rightarrow> (string \<rightharpoonup> (int \<times> int) list) \<Rightarrow> (string \<rightharpoonup> (int \<times> int) list)" where
  "collect_entries [] out = out"
| "collect_entries ((d, mid, meal) # pairs) out =
     (case py_int mid of
        Inl e \<Rightarrow> collect_entries pairs out
      | Inr itm_id' \<Rightarrow>
          (case (if meal \<noteq> [] then py_int meal else Inr 3) of
             Inl e \<Rightarrow> collect_entries pairs out
           | Inr meal_i \<Rightarrow>
               collect_entries pairs
                 (out(d \<mapsto> (case out d of None \<Rightarrow> [] | Some l \<Rightarrow> l) @ [(itm_id', meal_i)]))))"

definition parse_generated_menu :: "string option \<Rightarrow> (string \<rightharpoonup> (int \<times> int) list)" where
  "parse_generated_menu gen_str =
     (case gen_str of
        None \<Rightarrow> Map.empty
      | Some s \<Rightarrow> if s = [] then Map.empty else collect_entries (findall_entries s) Map.empty)"

section \<open>Notions used in the properties\<close>

text \<open>A maximal run of decimal digits of a text \<open>pre @ run @ post\<close>: digits only, at least
  one, with no digit next to it on either side.\<close>

definition maximal_digit_run :: "string \<Rightarrow> string \<Rightarrow> string \<Rightarrow> bool" where
  "maximal_digit_run pre run post \<longleftrightarrow>
     run \<noteq> [] \<and> list_all is_digit run \<and>
     (pre = [] \<or> \<not> is_digit (last pre)) \<and> (post = [] \<or> \<not> is_digit (hd post))"

text \<open>The set of tags of a comma-separated allergen text, each stripped and lower-cased, and
  the rows that carry a tag of the user's list.\<close>

definition tags :: "string \<Rightarrow> string set" where
  "tags text = set (map (\<lambda>x. lower (strip x)) (split_on CHR '','' text))"

definition row_hit :: "row \<Rightarrow> string \<Rightarrow> bool" where
  "row_hit r allergens \<longleftrightarrow> (\<exists>s. allergens_col r = CStr s \<and> tags s \<inter> tags allergens \<noteq> {})"

text \<open>
  A row makes \<open>filter_closed_restaurants\<close> remove its restaurant when the body of the \<open>try\<close>
  reaches a removal and the row has a restaurant id.  A list of opening times is open at \<open>t\<close>
  when \<open>t\<close> lies in one of its pairs, both ends included.  \<open>hours_list\<close> is the list of
  integers that a row's \<open>hours\<close> text gives for a weekday, when the text is a JSON object whose
  entry for the weekday is missing (no hours that day) or a list of integers.
\<close>

definition removes :: "(string \<Rightarrow> py_error + json) \<Rightarrow> string \<Rightarrow> int \<Rightarrow> row \<Rightarrow> bool" where
  "removes loads weekday time rows \<longleftrightarrow>
     row_closed loads rows weekday time = Inr True \<and> rtr_id rows \<noteq> Absent"

definition open_at :: "int list \<Rightarrow> int \<Rightarrow> bool" where
  "open_at opening_times t \<longleftrightarrow>
     (\<exists>x < length opening_times div 2. opening_times ! (x * 2) \<le> t \<and> opening_times ! (x * 2 + 1) \<ge> t)"

fun the_int :: "json \<Rightarrow> int" where
  "the_int (JInt i) = i"
| "the_int _ = 0"

fun is_JInt :: "json \<Rightarrow> bool" where
  "is_JInt (JInt i) = True"
| "is_JInt _ = False"

definition hours_list :: "(string \<Rightarrow> py_error + json) \<Rightarrow> row \<Rightarrow> string \<Rightarrow> int list option" where
  "hours_list loads rows weekday =
     (case hours rows of
        CStr s \<Rightarrow>
          if startswith (strip s) ''{'' then
            (case loads s of
               Inr (JObj kv) \<Rightarrow>
                 (case map_of kv weekday of
                    None \<Rightarrow> Some []
                  | Some (JArr xs) \<Rightarrow> if list_all is_JInt xs then Some (map the_int xs) else None
                  | Some _ \<Rightarrow> None)
             | _ \<Rightarrow> None)
          else None
      | _ \<Rightarrow> None)"

text \<open>
  A later world extends an earlier one when every \<open>DataFrame\<close> object of the earlier world is
  still there with the rows it had, the backend's calls have only been added to, and backend
  and library are the same.  The catalog of a generator is loaded when its two references
  point to the two query results.
\<close>

definition extends :: "world \<Rightarrow> world \<Rightarrow> bool" where
  "extends w w' \<longleftrightarrow>
     prefix (frames w) (frames w') \<and> prefix (calls w) (calls w') \<and>
     llm w' = llm w \<and> json_loads w' = json_loads w"

definition catalog_loaded :: "menu_generator \<Rightarrow> frame \<Rightarrow> frame \<Rightarrow> world \<Rightarrow> bool" where
  "catalog_loaded self item_query restaurant_query w \<longleftrightarrow>
     menu_items self < length (frames w) \<and> restaurants self < length (frames w) \<and>
     frame_at w (menu_items self) = item_query \<and> frame_at w (restaurants self) = restaurant_query"



text \<open>
  The pieces of a serialized plan: an entry with its slot, a legacy entry without one, and
  other text.  A piece is shaped when, for an entry, the date has the shape \<open>YYYY-MM-DD\<close>,
  the id is not negative and the slot is 1, 2 or 3; other text is shaped when no \<open>[\<close> in it
  is followed, after white space, by a digit or by the end of the text.  Its id is readable
  when it has no more digits than \<open>int\<close> converts.  \<open>serialize\<close> joins the texts of the pieces
  the way \<open>update_menu\<close> appends an entry; \<open>plan_map\<close> is the dictionary the pieces stand for,
  a legacy entry counting as dinner.
\<close>

datatype plan_piece = Entry string int int | Legacy string int | Other string

fun piece_text :: "plan_piece \<Rightarrow> string" where
  "piece_text (Entry d i m) = new_entry d i m"
| "piece_text (Legacy d i) = ''['' @ d @ '','' @ str_int i @ '']''"
| "piece_text (Other s) = s"








text \<open>The groups that the pattern of \<open>parse_generated_menu\<close> finds in a piece, and a list of
  entries added to a dictionary one after the other.\<close>

fun piece_groups :: "plan_piece \<Rightarrow> (string \<times> string \<times> string) list" where
  "piece_groups (Entry d i m) = [(d, str_int i, str_int m)]"
| "piece_groups (Legacy d i) = [(d, str_int i, [])]"
| "piece_groups (Other s) = []"


section \<open>A small catalog\<close>

text \<open>Four items of three restaurants, one of them not in the restaurant table, and a
  backend that answers the second call; the theorems below are instantiated with it.\<close>

definition no_columns :: row where
  "no_columns = \<lparr>itm_id = Absent, rtr_id = Absent, name = Absent, description = Absent,
     price = Absent, calories = Absent, allergens_col = Absent, hours = Absent\<rparr>"

definition demo_item :: "int \<Rightarrow> int \<Rightarrow> string \<Rightarrow> cell \<Rightarrow> row" where
  "demo_item i r n a =
     no_columns\<lparr>itm_id := CInt i, rtr_id := CInt r, name := CStr n, description := CNone,
       price := CInt 500, calories := CInt 300, allergens_col := a\<rparr>"

definition demo_restaurant :: "int \<Rightarrow> cell \<Rightarrow> row" where
  "demo_restaurant r h = no_columns\<lparr>rtr_id := CInt r, hours := h\<rparr>"

definition demo_loads :: "string \<Rightarrow> py_error + json" where
  "demo_loads s =
     (if s = ''{\"Mon\": [1000, 2000]}'' then Inr (JObj [(''Mon'', JArr [JInt 1000, JInt 2000])])
      else if s = ''{\"Mon\": []}'' then Inr (JObj [(''Mon'', JArr [])])
      else Inl (ValueError ''Expecting value''))"

definition demo_world :: world where
  "demo_world =
     \<lparr>frames =
        [[(0, demo_item 100 1 ''Oats'' CNone),
          (1, demo_item 105 1 ''Satay'' (CStr ''Peanuts, Soy'')),
          (2, demo_item 110 2 ''Toast'' (CStr ''Gluten'')),
          (3, demo_item 120 9 ''Soup'' CNone)],
         [(0, demo_restaurant 1 (CStr ''{\"Mon\": [1000, 2000]}'')),
          (1, demo_restaurant 2 (CStr ''{\"Mon\": []}'')),
          (2, demo_restaurant 3 CNone)]],
      rng = (\<lambda>i. 7 * i + 3),
      llm = (\<lambda>n system prompt. if n = 0 then ''I do not know'' else ''I recommend item 100 for you.''),
      calls = [],
      json_loads = demo_loads\<rparr>"

definition demo_generator :: menu_generator where
  "demo_generator = \<lparr>menu_items = 0, restaurants = 1\<rparr>"

text \<open>A restaurant table with hours that are not lists: \<open>null\<close>, a number and a text for Monday.\<close>

definition irregular_loads :: "string \<Rightarrow> py_error + json" where
  "irregular_loads s =
     (if s = ''{\"Mon\": null}'' then Inr (JObj [(''Mon'', JNull)])
      else if s = ''{\"Mon\": 0}'' then Inr (JObj [(''Mon'', JInt 0)])
      else if s = ''{\"Mon\": \"abc\"}'' then Inr (JObj [(''Mon'', JStr ''abc'')])
      else Inl (ValueError ''Expecting value''))"

definition irregular_world :: world where
  "irregular_world =
     \<lparr>frames =
        [[(0, demo_restaurant 1 (CStr ''{\"Mon\": null}'')),
          (1, demo_restaurant 2 (CStr ''{\"Mon\": 0}'')),
          (2, demo_restaurant 3 (CStr ''{\"Mon\": \"abc\"}'')),
          (3, demo_restaurant 4 CNone)]],
      rng = (\<lambda>i. 0),
      llm = (\<lambda>n system prompt. []),
      calls = [],
      json_loads = irregular_loads\<rparr>"


section \<open>Properties of the text functions\<close>

lemmas demo_defs = demo_world_def demo_item_def demo_restaurant_def no_columns_def demo_loads_def
  demo_generator_def

lemma digit_not_space: "is_digit c \<Longrightarrow> \<not> is_space c"
  by (auto simp: is_digit_def is_space_def)

lemma digit_not_sign: "is_digit c \<Longrightarrow> c \<noteq> CHR ''-'' \<and> c \<noteq> CHR ''+'' \<and> c \<noteq> CHR ''_''"
  by (auto simp: is_digit_def)

lemma digit_value_nonneg: "is_digit c \<Longrightarrow> 0 \<le> digit_value c"
  by (auto simp: is_digit_def digit_value_def)

lemma split_on_absent: "sep \<notin> set s \<Longrightarrow> split_on sep s = [s]"
  by (induction s) auto

lemma strip_digits:
  assumes "ds \<noteq> []" "list_all is_digit ds"
  shows "strip ds = ds"
proof -
  have h: "\<not> is_space (hd ds)" and l: "\<not> is_space (last ds)"
    using assms by (auto simp: list_all_iff digit_not_space)
  have "dropWhile is_space ds = ds"
    using assms(1) h by (cases ds) auto
  moreover have "dropWhile is_space (rev ds) = rev ds"
    using assms(1) l by (cases "rev ds") (auto simp: last_rev[symmetric] simp del: last_rev)
  ultimately show ?thesis by (simp add: strip_def)
qed

lemma py_int_digits:
  assumes "ds \<noteq> []" "list_all is_digit ds"
  shows "py_int ds =
     (if length ds > INT_MAX_STR_DIGITS
      then Inl (ValueError ''Exceeds the limit for integer string conversion'')
      else Inr (digits_value ds))"
proof -
  obtain c r where ds: "ds = c # r" using assms(1) by (cases ds) auto
  have c: "is_digit c" using assms(2) ds by simp
  have us: "CHR ''_'' \<notin> set ds"
    using assms(2) digit_not_sign by (auto simp: list_all_iff)
  have ok: "int_literal_ok ds"
    using assms by (simp add: int_literal_ok_def split_on_absent[OF us])
  have f: "filter is_digit ds = ds"
    using assms(2) by (simp add: list_all_iff)
  have "py_int ds =
     (if int_literal_ok ds
      then (if length (filter is_digit ds) > INT_MAX_STR_DIGITS
            then Inl (ValueError ''Exceeds the limit for integer string conversion'')
            else Inr (digits_value (filter is_digit ds)))
      else Inl (ValueError ''invalid literal for int()''))"
    using strip_digits[OF assms] digit_not_sign[OF c] ds by (simp add: py_int_def)
  then show ?thesis by (simp only: ok f if_True)
qed

lemma digits_value_nonneg_aux:
  "list_all is_digit ds \<Longrightarrow> 0 \<le> a \<Longrightarrow> 0 \<le> foldl (\<lambda>acc c. 10 * acc + digit_value c) a ds"
  by (induction ds arbitrary: a) (auto simp: digit_value_nonneg)

lemma digits_value_nonneg: "list_all is_digit ds \<Longrightarrow> 0 \<le> digits_value ds"
  unfolding digits_value_def by (rule digits_value_nonneg_aux) simp_all

lemma findall_digits_none: "(\<forall>c\<in>set s. \<not> is_digit c) \<Longrightarrow> findall_digits s = []"
  by (induction s) auto

lemma takeWhile_run:
  "list_all is_digit r \<Longrightarrow> (post = [] \<or> \<not> is_digit (hd post)) \<Longrightarrow> takeWhile is_digit (r @ post) = r"
  by (induction r) (auto simp: takeWhile_eq_Nil_iff)

lemma findall_digits_sound:
  "r \<in> set (findall_digits s) \<Longrightarrow>
   \<exists>pre post. s = pre @ r @ post \<and> r \<noteq> [] \<and> list_all is_digit r \<and>
     (pre = [] \<or> \<not> is_digit (last pre)) \<and> (post = [] \<or> \<not> is_digit (hd post))"
proof (induction s arbitrary: r rule: findall_digits.induct)
  case 1
  then show ?case by simp
next
  case (2 c cs)
  show ?case
  proof (cases "is_digit c")
    case False
    with "2.prems" have "r \<in> set (findall_digits cs)" by simp
    from "2.IH"(2)[OF False this]
    obtain pre post where d: "cs = pre @ r @ post" "r \<noteq> []" "list_all is_digit r"
      "pre = [] \<or> \<not> is_digit (last pre)" "post = [] \<or> \<not> is_digit (hd post)"
      by blast
    have "c # cs = (c # pre) @ r @ post" using d by simp
    moreover have "\<not> is_digit (last (c # pre))" using d False by auto
    ultimately show ?thesis using d by blast
  next
    case True
    from "2.prems" True have "r = takeWhile is_digit (c # cs) \<or> r \<in> set (findall_digits (dropWhile is_digit cs))"
      by (simp del: takeWhile.simps)
    then consider (a) "r = takeWhile is_digit (c # cs)"
      | (b) "r \<in> set (findall_digits (dropWhile is_digit cs))" by blast
    then show ?thesis
    proof cases
      case a
      let ?post = "dropWhile is_digit (c # cs)"
      have "c # cs = [] @ r @ ?post" using a by simp
      moreover have "r \<noteq> []" using a True by simp
      moreover have "list_all is_digit r" unfolding a list_all_iff
        by (auto dest: set_takeWhileD)
      moreover have "?post = [] \<or> \<not> is_digit (hd ?post)"
        using hd_dropWhile[of is_digit "c # cs"] by blast
      ultimately show ?thesis by blast
    next
      case b
      from "2.IH"(1)[OF True b]
      obtain pre post where d: "dropWhile is_digit cs = pre @ r @ post" "r \<noteq> []"
        "list_all is_digit r" "pre = [] \<or> \<not> is_digit (last pre)" "post = [] \<or> \<not> is_digit (hd post)"
        by blast
      have pre: "pre \<noteq> []"
      proof
        assume "pre = []"
        with d have "dropWhile is_digit cs = r @ post" by simp
        moreover have "is_digit (hd (r @ post))" using d(2,3) by (cases r) auto
        moreover have "r @ post \<noteq> []" using d(2) by simp
        ultimately show False using hd_dropWhile[of is_digit cs] by auto
      qed
      have "takeWhile is_digit cs @ dropWhile is_digit cs = cs" by simp
      then have "cs = takeWhile is_digit cs @ pre @ r @ post" using d(1) by simp
      then have "c # cs = (c # takeWhile is_digit cs @ pre) @ r @ post" by simp
      moreover have "\<not> is_digit (last (c # takeWhile is_digit cs @ pre))"
        using pre d(4) by simp
      ultimately show ?thesis using d by blast
    qed
  qed
qed

lemma findall_digits_complete:
  "s = pre @ r @ post \<Longrightarrow> r \<noteq> [] \<Longrightarrow> list_all is_digit r \<Longrightarrow>
   pre = [] \<or> \<not> is_digit (last pre) \<Longrightarrow> post = [] \<or> \<not> is_digit (hd post) \<Longrightarrow>
   r \<in> set (findall_digits s)"
proof (induction s arbitrary: pre rule: findall_digits.induct)
  case 1
  then show ?case by simp
next
  case (2 c cs)
  show ?case
  proof (cases pre)
    case Nil
    with 2 have s: "c # cs = r @ post" by simp
    then have "is_digit c" using "2.prems"(2,3) by (cases r) auto
    moreover have "takeWhile is_digit (c # cs) = r"
      unfolding s using "2.prems" by (intro takeWhile_run) auto
    ultimately show ?thesis by simp
  next
    case (Cons p pre')
    with "2.prems" have cs: "cs = pre' @ r @ post" and pc: "p = c" by auto
    have lastnd: "\<not> is_digit (last (c # pre'))" using "2.prems"(4) Cons pc by auto
    show ?thesis
    proof (cases "is_digit c")
      case False
      have "pre' = [] \<or> \<not> is_digit (last pre')" using lastnd by (auto split: if_splits)
      from "2.IH"(2)[OF False cs "2.prems"(2,3) this "2.prems"(5)] False show ?thesis by simp
    next
      case True
      then have ne: "pre' \<noteq> []" using lastnd by auto
      then have lp: "\<not> is_digit (last pre')" using lastnd by auto
      then have ex: "\<exists>x\<in>set pre'. \<not> is_digit x" using ne last_in_set by blast
      from ex obtain x where x: "x \<in> set pre'" "\<not> is_digit x" by blast
      have dw: "dropWhile is_digit cs = dropWhile is_digit pre' @ r @ post"
        unfolding cs using x by (rule dropWhile_append1)
      have ne': "dropWhile is_digit pre' \<noteq> []" using ex by (simp add: dropWhile_eq_Nil_conv)
      have "last (takeWhile is_digit pre' @ dropWhile is_digit pre') = last (dropWhile is_digit pre')"
        using ne' by (rule last_appendR)
      then have "last (dropWhile is_digit pre') = last pre'" by simp
      then have "dropWhile is_digit pre' = [] \<or> \<not> is_digit (last (dropWhile is_digit pre'))"
        using lp by simp
      from "2.IH"(1)[OF True dw "2.prems"(2,3) this "2.prems"(5)] True show ?thesis by simp
    qed
  qed
qed

lemma findall_digits_last:
  "\<exists>c\<in>set s. is_digit c \<Longrightarrow>
   findall_digits s \<noteq> [] \<and>
   (\<exists>pre post. s = pre @ last (findall_digits s) @ post \<and> (\<forall>c\<in>set post. \<not> is_digit c))"
proof (induction s rule: findall_digits.induct)
  case 1
  then show ?case by simp
next
  case (2 c cs)
  show ?case
  proof (cases "is_digit c")
    case False
    with "2.prems" have "\<exists>c\<in>set cs. is_digit c" by auto
    from "2.IH"(2)[OF False this] obtain pre post where
      "findall_digits cs \<noteq> []" "cs = pre @ last (findall_digits cs) @ post" "\<forall>c\<in>set post. \<not> is_digit c"
      by blast
    then have "c # cs = (c # pre) @ last (findall_digits (c # cs)) @ post \<and> findall_digits (c # cs) \<noteq> []"
      using False by simp
    then show ?thesis using \<open>\<forall>c\<in>set post. \<not> is_digit c\<close> by blast
  next
    case True
    let ?rest = "dropWhile is_digit cs"
    show ?thesis
    proof (cases "\<exists>c\<in>set ?rest. is_digit c")
      case False
      then have "findall_digits ?rest = []" by (simp add: findall_digits_none)
      then have l: "last (findall_digits (c # cs)) = takeWhile is_digit (c # cs)" using True by simp
      have "c # cs = [] @ last (findall_digits (c # cs)) @ ?rest"
        unfolding l using True by simp
      moreover have "findall_digits (c # cs) \<noteq> []" using True by simp
      ultimately show ?thesis using False by blast
    next
      case ex: True
      from "2.IH"(1)[OF True ex] obtain pre post where
        d: "findall_digits ?rest \<noteq> []" "?rest = pre @ last (findall_digits ?rest) @ post"
           "\<forall>c\<in>set post. \<not> is_digit c"
        by blast
      have l: "last (findall_digits (c # cs)) = last (findall_digits ?rest)"
        using True d(1) by simp
      have "takeWhile is_digit cs @ ?rest = cs" by simp
      then have "cs = takeWhile is_digit cs @ pre @ last (findall_digits ?rest) @ post"
        using d(2) by simp
      then have "c # cs = (c # takeWhile is_digit cs @ pre) @ last (findall_digits (c # cs)) @ post"
        unfolding l by simp
      moreover have "findall_digits (c # cs) \<noteq> []" using True by simp
      ultimately show ?thesis using d(3) by blast
    qed
  qed
qed

section \<open>The output parser\<close>

lemma findall_digits_all:
  assumes "ds \<noteq> []" "list_all is_digit ds"
  shows "findall_digits ds = [ds]"
proof -
  obtain c cs where ds: "ds = c # cs" using assms(1) by (cases ds) auto
  have c: "is_digit c" and cs: "\<forall>x\<in>set cs. is_digit x"
    using assms(2) ds by (auto simp: list_all_iff)
  have t: "takeWhile is_digit (c # cs) = c # cs" using c cs by simp
  have d: "dropWhile is_digit cs = []" using cs by simp
  have "findall_digits (c # cs) = takeWhile is_digit (c # cs) # findall_digits (dropWhile is_digit cs)"
    using c by simp
  then show ?thesis unfolding t d ds by simp
qed

lemma format_llm_output_digits:
  assumes "ds \<noteq> []" "list_all is_digit ds"
  shows "format_llm_output ds =
     (if length ds > INT_MAX_STR_DIGITS then LLM_ATTRIBUTE_ERROR else digits_value ds)"
  by (simp add: format_llm_output_def findall_digits_all[OF assms] py_int_digits[OF assms])

lemma format_llm_output_sevens:
  assumes "INT_MAX_STR_DIGITS < n"
  shows "findall_digits (replicate n CHR ''7'') = [replicate n CHR ''7'']"
    and "format_llm_output (replicate n CHR ''7'') = LLM_ATTRIBUTE_ERROR"
    and "format_llm_output (replicate n CHR ''7'') \<noteq> digits_value (replicate n CHR ''7'')"
proof -
  have ne: "replicate n CHR ''7'' \<noteq> []" using assms by auto
  have dg: "list_all is_digit (replicate n CHR ''7'')"
    by (simp add: list_all_iff is_digit_def)
  show "findall_digits (replicate n CHR ''7'') = [replicate n CHR ''7'']"
    using ne dg by (rule findall_digits_all)
  show e: "format_llm_output (replicate n CHR ''7'') = LLM_ATTRIBUTE_ERROR"
    using assms by (simp add: format_llm_output_digits[OF ne dg])
  have "0 \<le> digits_value (replicate n CHR ''7'')" using dg by (rule digits_value_nonneg)
  then show "format_llm_output (replicate n CHR ''7'') \<noteq> digits_value (replicate n CHR ''7'')"
    unfolding e by (simp add: LLM_ATTRIBUTE_ERROR_def)
qed

text \<open>
  C7, as the claim states it, fails: for a text that is one run of 4301 digits the parser
  finds the run, \<open>int\<close> refuses it, and the parser returns the sentinel, not the value of the
  run.
\<close>

theorem format_llm_output_long_run:
  "findall_digits (replicate 4301 CHR ''7'') = [replicate 4301 CHR ''7''] \<and>
   format_llm_output (replicate 4301 CHR ''7'') = LLM_ATTRIBUTE_ERROR \<and>
   format_llm_output (replicate 4301 CHR ''7'') \<noteq> digits_value (replicate 4301 CHR ''7'')"
proof -
  have n: "INT_MAX_STR_DIGITS < 4301" by (simp add: INT_MAX_STR_DIGITS_def)
  show ?thesis
    by (intro conjI) (rule format_llm_output_sevens[OF n])+
qed

text \<open>
  C7, amended.  For every backend text, the matches of \<open>format_llm_output\<close> are exactly the
  maximal runs of decimal digits of the text.  When the text has a digit and its last run
  (the one with no digit behind it) has at most 4300 digits, the parser returns the integer
  value of that run, which is not negative.  When the text has no digit, or the last run
  has more digits than \<open>int\<close> converts, it returns the sentinel \<open>LLM_ATTRIBUTE_ERROR\<close>, which is
  negative and so differs from every item id.
\<close>

theorem format_llm_output_last_run:
  "(run \<in> set (findall_digits output) \<longleftrightarrow>
      (\<exists>pre post. output = pre @ run @ post \<and> maximal_digit_run pre run post)) \<and>
   (if \<exists>c\<in>set output. is_digit c
    then findall_digits output \<noteq> [] \<and>
         (\<exists>pre post. output = pre @ last (findall_digits output) @ post \<and>
            (\<forall>c\<in>set post. \<not> is_digit c)) \<and>
         (if length (last (findall_digits output)) \<le> INT_MAX_STR_DIGITS
          then format_llm_output output = digits_value (last (findall_digits output)) \<and>
               0 \<le> format_llm_output output
          else format_llm_output output = LLM_ATTRIBUTE_ERROR)
    else format_llm_output output = LLM_ATTRIBUTE_ERROR) \<and>
   LLM_ATTRIBUTE_ERROR < 0"
proof (intro conjI)
  show "run \<in> set (findall_digits output) \<longleftrightarrow>
      (\<exists>pre post. output = pre @ run @ post \<and> maximal_digit_run pre run post)"
    unfolding maximal_digit_run_def
    using findall_digits_sound[of run "output"] findall_digits_complete[of "output" _ run]
    by blast
  show "LLM_ATTRIBUTE_ERROR < 0" by (simp add: LLM_ATTRIBUTE_ERROR_def)
  show "if \<exists>c\<in>set output. is_digit c
    then findall_digits output \<noteq> [] \<and>
         (\<exists>pre post. output = pre @ last (findall_digits output) @ post \<and>
            (\<forall>c\<in>set post. \<not> is_digit c)) \<and>
         (if length (last (findall_digits output)) \<le> INT_MAX_STR_DIGITS
          then format_llm_output output = digits_value (last (findall_digits output)) \<and>
               0 \<le> format_llm_output output
          else format_llm_output output = LLM_ATTRIBUTE_ERROR)
    else format_llm_output output = LLM_ATTRIBUTE_ERROR"
  proof (cases "\<exists>c\<in>set output. is_digit c")
    case False
    then have "findall_digits output = []" by (simp add: findall_digits_none)
    with False show ?thesis by (simp add: format_llm_output_def)
  next
    case True
    note l = findall_digits_last[OF True]
    let ?r = "last (findall_digits output)"
    have "?r \<in> set (findall_digits output)" using l by simp
    from findall_digits_sound[OF this] have r: "?r \<noteq> []" "list_all is_digit ?r" by blast+
    have v: "format_llm_output output =
        (if length ?r > INT_MAX_STR_DIGITS then LLM_ATTRIBUTE_ERROR else digits_value ?r)"
      using l py_int_digits[OF r] by (simp add: format_llm_output_def)
    have nn: "0 \<le> digits_value ?r" using r(2) by (rule digits_value_nonneg)
    show ?thesis
    proof (cases "length ?r \<le> INT_MAX_STR_DIGITS")
      case le: True
      then have "format_llm_output output = digits_value ?r" using v by simp
      with nn le True l show ?thesis by simp
    next
      case gt: False
      then have "format_llm_output output = LLM_ATTRIBUTE_ERROR" using v by simp
      with gt True l show ?thesis by simp
    qed
  qed
qed

theorem format_llm_output_last_run_witness:
  "(\<exists>c\<in>set ''I recommend item 105 for you.''. is_digit c) \<and>
   ''105'' \<in> set (findall_digits ''I recommend item 105 for you.'') \<and>
   format_llm_output ''I recommend item 105 for you.'' = 105 \<and>
   \<not> (\<exists>c\<in>set ''I do not know''. is_digit c) \<and>
   format_llm_output ''I do not know'' = - 1"
  using format_llm_output_last_run [of "''105''" "''I recommend item 105 for you.''"]
    format_llm_output_last_run [of "''105''" "''I do not know''"]
  by (simp add: is_digit_def digits_value_def digit_value_def LLM_ATTRIBUTE_ERROR_def
      INT_MAX_STR_DIGITS_def)

section \<open>The candidate sampler: properties\<close>

lemma sample_from_props:
  "k \<le> length pool \<Longrightarrow> distinct pool \<Longrightarrow>
   length (sample_from rnd pool k) = k \<and> distinct (sample_from rnd pool k) \<and>
   set (sample_from rnd pool k) \<subseteq> set pool"
proof (induction k arbitrary: rnd pool)
  case 0
  then show ?case by simp
next
  case (Suc k)
  then have ne: "pool \<noteq> []" by auto
  define j where "j = rnd 0 mod length pool"
  define rest where "rest = take j pool @ drop (Suc j) pool"
  have j: "j < length pool" using ne by (simp add: j_def)
  have split: "pool = take j pool @ pool ! j # drop (Suc j) pool"
    using j by (rule id_take_nth_drop)
  have d: "distinct (take j pool @ pool ! j # drop (Suc j) pool)"
    using Suc.prems(2) split by simp
  have rest_d: "distinct rest" and notin: "pool ! j \<notin> set rest"
    using d by (auto simp: rest_def)
  have rest_sub: "set rest \<subseteq> set pool"
    unfolding rest_def using set_take_subset[of j pool] set_drop_subset[of "Suc j" pool] by auto
  have rest_len: "k \<le> length rest"
    using Suc.prems(1) j by (simp add: rest_def)
  note IH = Suc.IH[OF rest_len rest_d, of "\<lambda>i. rnd (Suc i)"]
  have eq: "sample_from rnd pool (Suc k) = pool ! j # sample_from (\<lambda>i. rnd (Suc i)) rest k"
    using ne by (simp add: Let_def j_def rest_def)
  have "pool ! j \<in> set pool" using j by simp
  then show ?case unfolding eq using IH notin rest_sub by auto
qed

lemma limit_scope_all:
  "int (length (frame_at w items)) \<le> num_choices \<Longrightarrow>
   limit_scope items num_choices w = (Inr [0..<length (frame_at w items)], w)"
  by (simp add: limit_scope_def Let_def)

lemma limit_scope_sample:
  assumes "0 \<le> num_choices" "num_choices < int (length (frame_at w items))"
  shows "\<exists>choices w'. limit_scope items num_choices w = (Inr choices, w') \<and>
           length choices = nat num_choices \<and> distinct choices \<and>
           set choices \<subseteq> {..<length (frame_at w items)} \<and> frames w' = frames w"
proof -
  let ?n = "length (frame_at w items)"
  have k: "nat num_choices \<le> length [0..<?n]" using assms by simp
  from sample_from_props[OF k, of "rng w"]
  have p: "length (sample_from (rng w) [0..<?n] (nat num_choices)) = nat num_choices"
    "distinct (sample_from (rng w) [0..<?n] (nat num_choices))"
    "set (sample_from (rng w) [0..<?n] (nat num_choices)) \<subseteq> {..<?n}"
    by auto
  have "limit_scope items num_choices w =
      (Inr (sample_from (rng w) [0..<?n] (nat num_choices)),
       w\<lparr>rng := (\<lambda>i. rng w (i + nat num_choices))\<rparr>)"
    using assms by (simp add: limit_scope_def Let_def random_sample_def)
  with p show ?thesis by simp
qed

text \<open>
  C8.  For every frame of \<open>n\<close> rows and every requested sample size \<open>K\<close> (not negative),
  \<open>limit_scope\<close> returns all \<open>n\<close> positions when \<open>n \<le> K\<close>, and otherwise exactly \<open>K\<close> positions;
  in both cases the positions are distinct and each is a position of a row of the frame.
\<close>

theorem limit_scope_sample_size:
  "0 \<le> num_choices \<Longrightarrow>
   \<exists>choices w'. limit_scope items num_choices w = (Inr choices, w') \<and>
     (if int (length (frame_at w items)) \<le> num_choices
      then choices = [0..<length (frame_at w items)] \<and> length choices = length (frame_at w items)
      else length choices = nat num_choices) \<and>
     distinct choices \<and>
     (\<forall>x\<in>set choices. x < length (frame_at w items) \<and> frame_at w items ! x \<in> set (frame_at w items)) \<and>
     frames w' = frames w"
proof (cases "int (length (frame_at w items)) \<le> num_choices")
  case True
  then show ?thesis by (simp add: limit_scope_all)
next
  case False
  assume "0 \<le> num_choices"
  with False limit_scope_sample[of num_choices w items]
  obtain choices w' where "limit_scope items num_choices w = (Inr choices, w')"
    "length choices = nat num_choices" "distinct choices"
    "set choices \<subseteq> {..<length (frame_at w items)}" "frames w' = frames w"
    by auto
  with False show ?thesis by auto
qed


theorem limit_scope_sample_size_witness:
  "(0::int) \<le> 2 \<and>
   (\<exists>choices w'. limit_scope 0 2 demo_world = (Inr choices, w') \<and> length choices = 2 \<and>
      distinct choices \<and> (\<forall>x\<in>set choices. x < 4))"
proof -
  have n: "length (frame_at demo_world 0) = 4" by (simp add: demo_world_def frame_at_def)
  have k: "(0::int) \<le> 2" by simp
  from limit_scope_sample_size [OF k, where items = 0 and w = demo_world]
  obtain choices w' where "limit_scope 0 2 demo_world = (Inr choices, w')"
    "length choices = 2" "distinct choices" "\<forall>x\<in>set choices. x < 4"
    unfolding n by auto
  with k show ?thesis by blast
qed

section \<open>The allergen filter: properties\<close>

lemma allergen_hit_tags: "allergen_hit s allergens \<longleftrightarrow> tags s \<inter> tags allergens \<noteq> {}"
  unfolding allergen_hit_def tags_def Let_def list_ex_iff by blast

lemma put_put: "put r f (put r g w) = put r f w"
  by (simp add: put_def)

lemma frame_at_put: "r < length (frames w) \<Longrightarrow> frame_at (put r f w) r = f"
  by (simp add: put_def frame_at_def)

lemma length_frames_put: "length (frames (put r f w)) = length (frames w)"
  by (simp add: put_def)

lemma put_same: "put r (frame_at w r) w = w"
  by (simp add: put_def frame_at_def)

lemma drop_loop_result:
  "drop_loop rest allergens ref w = (Inr r, w') \<Longrightarrow> ref < length (frames w) \<Longrightarrow>
   r = ref \<and>
   w' = put ref (filter (\<lambda>(i, x). i \<notin> fst ` {p \<in> set rest. row_hit (snd p) allergens})
                  (frame_at w ref)) w"
proof (induction rest arbitrary: w)
  case Nil
  then show ?case by (simp add: put_same)
next
  case (Cons p rest)
  obtain index rows where p: "p = (index, rows)" by (cases p)
  let ?D = "fst ` {q \<in> set rest. row_hit (snd q) allergens}"
  show ?case
  proof (cases "row_hit rows allergens")
    case False
    then have "{q \<in> set (p # rest). row_hit (snd q) allergens} =
          {q \<in> set rest. row_hit (snd q) allergens}"
      using p by auto
    then have D: "fst ` {q \<in> set (p # rest). row_hit (snd q) allergens} = ?D"
      by simp
    from Cons.prems(1) False p have "drop_loop rest allergens ref w = (Inr r, w')"
      by (auto simp: getitem_def row_hit_def allergen_hit_tags split: cell.splits if_splits)
    from Cons.IH[OF this Cons.prems(2)] show ?thesis unfolding D .
  next
    case True
    then obtain s where s: "allergens_col rows = CStr s" "allergen_hit s allergens"
      by (auto simp: row_hit_def allergen_hit_tags)
    let ?w1 = "put ref (filter (\<lambda>(i, r). i \<noteq> index) (frame_at w ref)) w"
    from Cons.prems(1) p s have rec: "drop_loop rest allergens ref ?w1 = (Inr r, w')"
      by (auto simp: getitem_def split: if_splits)
    have len: "ref < length (frames ?w1)" using Cons.prems(2) by (simp add: length_frames_put)
    have "{q \<in> set (p # rest). row_hit (snd q) allergens} =
          insert p {q \<in> set rest. row_hit (snd q) allergens}"
      using p True by auto
    then have D: "fst ` {q \<in> set (p # rest). row_hit (snd q) allergens} = insert index ?D"
      using p by simp
    have "filter (\<lambda>(i, x). i \<notin> ?D) (frame_at ?w1 ref) =
          filter (\<lambda>(i, x). i \<notin> insert index ?D) (frame_at w ref)"
      unfolding frame_at_put[OF Cons.prems(2)] filter_filter
      by (rule filter_cong[OF refl]) auto
    with Cons.IH[OF rec len] show ?thesis unfolding D by (simp add: put_put)
  qed
qed

lemma drop_loop_total:
  "ref < length (frames w) \<Longrightarrow> distinct (map fst rest) \<Longrightarrow>
   fst ` set rest \<subseteq> fst ` set (frame_at w ref) \<Longrightarrow>
   \<forall>(i, x)\<in>set rest. allergens_col x = CNone \<or> (\<exists>s. allergens_col x = CStr s) \<Longrightarrow>
   \<exists>w'. drop_loop rest allergens ref w = (Inr ref, w')"
proof (induction rest arbitrary: w)
  case Nil
  then show ?case by simp
next
  case (Cons p rest)
  obtain index rows where p: "p = (index, rows)" by (cases p)
  have d: "distinct (map fst rest)" and ni: "index \<notin> fst ` set rest"
    using Cons.prems(2) p by auto
  have ty: "\<forall>(i, x)\<in>set rest. allergens_col x = CNone \<or> (\<exists>s. allergens_col x = CStr s)"
    using Cons.prems(4) by simp
  have sub: "fst ` set rest \<subseteq> fst ` set (frame_at w ref)" using Cons.prems(3) by auto
  have here: "index \<in> fst ` set (frame_at w ref)" using Cons.prems(3) p by auto
  from Cons.prems(4) p consider (none) "allergens_col rows = CNone"
    | (str) s where "allergens_col rows = CStr s" by auto
  then show ?case
  proof cases
    case none
    with Cons.IH[OF Cons.prems(1) d sub ty] p show ?thesis by (simp add: getitem_def)
  next
    case (str s)
    show ?thesis
    proof (cases "allergen_hit s allergens")
      case False
      with str Cons.IH[OF Cons.prems(1) d sub ty] p show ?thesis by (simp add: getitem_def)
    next
      case True
      let ?w1 = "put ref (filter (\<lambda>(i, r). i \<noteq> index) (frame_at w ref)) w"
      have len: "ref < length (frames ?w1)" using Cons.prems(1) by (simp add: length_frames_put)
      have sub1: "fst ` set rest \<subseteq> fst ` set (frame_at ?w1 ref)"
        unfolding frame_at_put[OF Cons.prems(1)] using sub ni by force
      from Cons.IH[OF len d sub1 ty] str True here p show ?thesis by (simp add: getitem_def)
    qed
  qed
qed

lemma filter_labels_rows:
  assumes "distinct (map fst f)"
  shows "filter (\<lambda>(i, x). i \<notin> fst ` {p \<in> set f. P (snd p)}) f = filter (\<lambda>(i, x). \<not> P x) f"
proof (rule filter_cong[OF refl])
  fix q assume q: "q \<in> set f"
  obtain i x where ix: "q = (i, x)" by (cases q)
  have "i \<in> fst ` {p \<in> set f. P (snd p)} \<longleftrightarrow> P x"
  proof
    assume "i \<in> fst ` {p \<in> set f. P (snd p)}"
    then obtain y where "(i, y) \<in> set f" "P y" by auto
    moreover have "y = x" using assms q ix \<open>(i, y) \<in> set f\<close> by (meson eq_key_imp_eq_value)
    ultimately show "P x" by simp
  next
    assume "P x" then show "i \<in> fst ` {p \<in> set f. P (snd p)}" using q ix by force
  qed
  then show "(case q of (i, x) \<Rightarrow> i \<notin> fst ` {p \<in> set f. P (snd p)}) = (case q of (i, x) \<Rightarrow> \<not> P x)"
    using ix by simp
qed

text \<open>
  C4.  With an empty allergen list \<open>filter_allergens\<close> returns the frame it was given and
  changes nothing.  With a non-empty list, whenever it returns, no row left in the frame has
  a tag (split at commas, stripped, lower-cased) that is one of the user's allergens, and
  the rows left are rows of the input; and it does return, with exactly the rows without
  such a tag, when the index labels are distinct and the column holds \<open>None\<close> or strings.
\<close>

theorem filter_allergens_excludes:
  "filter_allergens ref [] w = (Inr ref, w) \<and>
   (allergens \<noteq> [] \<and> ref < length (frames w) \<and>
    filter_allergens ref allergens w = (Inr r, w') \<longrightarrow>
      r = ref \<and> set (frame_at w' r) \<subseteq> set (frame_at w ref) \<and>
      (\<forall>(i, x)\<in>set (frame_at w' r). \<forall>s. allergens_col x = CStr s \<longrightarrow> tags s \<inter> tags allergens = {})) \<and>
   (allergens \<noteq> [] \<and> ref < length (frames w) \<and>
    distinct (map fst (frame_at w ref)) \<and>
    (\<forall>(i, x)\<in>set (frame_at w ref). allergens_col x = CNone \<or> (\<exists>s. allergens_col x = CStr s)) \<longrightarrow>
      (\<exists>w'. filter_allergens ref allergens w = (Inr ref, w') \<and>
         frame_at w' ref = filter (\<lambda>(i, x). \<not> row_hit x allergens) (frame_at w ref)))"
proof (intro conjI impI)
  show "filter_allergens ref [] w = (Inr ref, w)"
    by (simp add: filter_allergens_def)
next
  assume a: "allergens \<noteq> [] \<and> ref < length (frames w) \<and>
    filter_allergens ref allergens w = (Inr r, w')"
  let ?f = "frame_at w ref"
  let ?D = "fst ` {p \<in> set ?f. row_hit (snd p) allergens}"
  from a have "drop_loop ?f allergens ref w = (Inr r, w')"
    by (auto simp: filter_allergens_def split: if_splits)
  from drop_loop_result[OF this] a
  have r: "r = ref" and w': "w' = put ref (filter (\<lambda>(i, x). i \<notin> ?D) ?f) w"
    by auto
  have f': "frame_at w' r = filter (\<lambda>(i, x). i \<notin> ?D) ?f"
    using a by (simp add: r w' frame_at_put)
  show "r = ref" by (rule r)
  show "set (frame_at w' r) \<subseteq> set (frame_at w ref)" unfolding f' by auto
  show "\<forall>(i, x)\<in>set (frame_at w' r). \<forall>s. allergens_col x = CStr s \<longrightarrow> tags s \<inter> tags allergens = {}"
  proof (clarify)
    fix i x s
    assume m: "(i, x) \<in> set (frame_at w' r)" and s: "allergens_col x = CStr s"
    from m have in_f: "(i, x) \<in> set ?f" and nd: "i \<notin> ?D" unfolding f' by auto
    show "tags s \<inter> tags allergens = {}"
    proof (rule ccontr)
      assume "tags s \<inter> tags allergens \<noteq> {}"
      then have "row_hit x allergens" using s by (auto simp: row_hit_def)
      with in_f have "i \<in> ?D" by force
      with nd show False by simp
    qed
  qed
next
  assume a: "allergens \<noteq> [] \<and> ref < length (frames w) \<and>
    distinct (map fst (frame_at w ref)) \<and>
    (\<forall>(i, x)\<in>set (frame_at w ref). allergens_col x = CNone \<or> (\<exists>s. allergens_col x = CStr s))"
  let ?f = "frame_at w ref"
  from a have len: "ref < length (frames w)" and d: "distinct (map fst ?f)"
    and ty: "\<forall>(i, x)\<in>set ?f. allergens_col x = CNone \<or> (\<exists>s. allergens_col x = CStr s)"
    by auto
  from drop_loop_total[OF len d subset_refl ty, of allergens]
  obtain w' where run: "drop_loop ?f allergens ref w = (Inr ref, w')" by blast
  from drop_loop_result[OF run len]
  have "w' = put ref (filter (\<lambda>(i, x). i \<notin> fst ` {p \<in> set ?f. row_hit (snd p) allergens}) ?f) w"
    by simp
  then have "frame_at w' ref = filter (\<lambda>(i, x). \<not> row_hit x allergens) ?f"
    using len filter_labels_rows[OF d, of "\<lambda>x. row_hit x allergens"] by (simp add: frame_at_put)
  with run a show "\<exists>w'. filter_allergens ref allergens w = (Inr ref, w') \<and>
         frame_at w' ref = filter (\<lambda>(i, x). \<not> row_hit x allergens) (frame_at w ref)"
    by (simp add: filter_allergens_def)
qed


theorem filter_allergens_excludes_witness:
  "''peanuts'' \<noteq> [] \<and> 0 < length (frames demo_world) \<and>
   distinct (map fst (frame_at demo_world 0)) \<and>
   (\<exists>w'. filter_allergens 0 ''peanuts'' demo_world = (Inr 0, w') \<and>
      map fst (frame_at w' 0) = [0, 2, 3])"
proof -
  have 1: "''peanuts'' \<noteq> []" by simp
  have 2: "0 < length (frames demo_world)" by (simp add: demo_world_def)
  have 3: "distinct (map fst (frame_at demo_world 0))" by (simp add: demo_world_def frame_at_def)
  have 4: "\<forall>(i, x)\<in>set (frame_at demo_world 0). allergens_col x = CNone \<or> (\<exists>s. allergens_col x = CStr s)"
    by (simp add: demo_defs frame_at_def)
  have t: "tags ''peanuts'' = {''peanuts''}" "tags ''Peanuts, Soy'' = {''peanuts'', ''soy''}"
    "tags ''Gluten'' = {''gluten''}"
    by (simp_all add: tags_def lower_def lower_char_def strip_def is_space_def char_of_def bit_Suc_0_iff)
  note inst = filter_allergens_excludes [where ref = 0 and w = demo_world and allergens = "''peanuts''"]
  from inst[THEN conjunct2, THEN conjunct2] 1 2 3 4
  have "\<exists>w'. filter_allergens 0 ''peanuts'' demo_world = (Inr 0, w') \<and>
    frame_at w' 0 = filter (\<lambda>(i, x). \<not> row_hit x ''peanuts'') (frame_at demo_world 0)"
    by (elim impE) (intro conjI, assumption+)
  then obtain w' where w': "filter_allergens 0 ''peanuts'' demo_world = (Inr 0, w')"
    "frame_at w' 0 = filter (\<lambda>(i, x). \<not> row_hit x ''peanuts'') (frame_at demo_world 0)"
    by (elim exE conjE)
  have "map fst (frame_at w' 0) = [0, 2, 3]"
    unfolding w'(2) by (simp add: demo_defs frame_at_def row_hit_def t)
  with w'(1) have "\<exists>w'. filter_allergens 0 ''peanuts'' demo_world = (Inr 0, w') \<and>
      map fst (frame_at w' 0) = [0, 2, 3]" by (intro exI[of _ w'] conjI)
  with 1 2 3 show ?thesis by (intro conjI)
qed

section \<open>The open-hours filter: properties\<close>

lemma frame_at_alloc_old: "r < length (frames w) \<Longrightarrow> frame_at (snd (alloc f w)) r = frame_at w r"
  by (simp add: alloc_def frame_at_def nth_append)

lemma frame_at_alloc_new: "frame_at (snd (alloc f w)) (fst (alloc f w)) = f"
  by (simp add: alloc_def frame_at_def)

lemma closed_loop_result:
  "closed_loop rest weekday time cur w = (cur', w') \<Longrightarrow> cur < length (frames w) \<Longrightarrow>
   cur' < length (frames w') \<and>
   take (length (frames w)) (frames w') = frames w \<and>
   length (frames w) \<le> length (frames w') \<and>
   rng w' = rng w \<and> llm w' = llm w \<and> calls w' = calls w \<and> json_loads w' = json_loads w \<and>
   frame_at w' cur' =
     filter (\<lambda>(i, r). \<forall>(j, rows)\<in>set rest. removes (json_loads w) weekday time rows \<longrightarrow>
                        cell_ne (rtr_id r) (rtr_id rows)) (frame_at w cur)"
proof (induction rest arbitrary: cur w)
  case Nil
  then show ?case by simp
next
  case (Cons p rest)
  obtain index rows where p: "p = (index, rows)" by (cases p)
  show ?case
  proof (cases "removes (json_loads w) weekday time rows")
    case False
    then have rec: "closed_loop rest weekday time cur w = (cur', w')"
      using Cons.prems(1) p
      by (auto simp: removes_def getitem_def split: sum.splits bool.splits cell.splits)
    from Cons.IH[OF rec Cons.prems(2)] False p show ?thesis by simp
  next
    case True
    let ?f = "filter (\<lambda>(i, r). cell_ne (rtr_id r) (rtr_id rows)) (frame_at w cur)"
    let ?w1 = "snd (alloc ?f w)"
    let ?c1 = "fst (alloc ?f w)"
    from True have rc: "row_closed (json_loads w) rows weekday time = Inr True"
      and gi: "getitem (rtr_id rows) = Inr (rtr_id rows)"
      by (auto simp: removes_def getitem_def split: cell.splits)
    have rec: "closed_loop rest weekday time ?c1 ?w1 = (cur', w')"
      using Cons.prems(1) p rc gi by (simp add: case_prod_beta)
    have c1: "?c1 < length (frames ?w1)" by (simp add: alloc_def)
    have jl: "json_loads ?w1 = json_loads w" by (simp add: alloc_def)
    have fr: "frames ?w1 = frames w @ [?f]" by (simp add: alloc_def)
    note IH = Cons.IH[OF rec c1, unfolded jl frame_at_alloc_new]
    have pre: "take (length (frames w)) (frames w') = frames w"
    proof -
      from IH have t: "take (length (frames ?w1)) (frames w') = frames ?w1" by simp
      have "take (length (frames w)) (frames w') =
            take (length (frames w)) (take (length (frames ?w1)) (frames w'))"
        by (simp add: fr min_def)
      also have "\<dots> = frames w" unfolding t by (simp add: fr)
      finally show ?thesis .
    qed
    have "frame_at w' cur' =
      filter (\<lambda>(i, r). \<forall>(j, rows')\<in>set (p # rest). removes (json_loads w) weekday time rows' \<longrightarrow>
                        cell_ne (rtr_id r) (rtr_id rows')) (frame_at w cur)"
      using IH True p unfolding filter_filter
      by (auto intro!: filter_cong)
    moreover have "rng w' = rng w \<and> llm w' = llm w \<and> calls w' = calls w \<and> json_loads w' = json_loads w"
      using IH by (simp add: alloc_def)
    moreover have "length (frames w) \<le> length (frames w')" using IH fr by simp
    ultimately show ?thesis using IH pre by simp
  qed
qed

lemma filter_closed_restaurants_rows:
  assumes "filter_closed_restaurants ref weekday time w = (ref', w')" "ref < length (frames w)"
  shows "(i, r) \<in> set (frame_at w' ref') \<longleftrightarrow>
     (i, r) \<in> set (frame_at w ref) \<and>
     (\<forall>(j, rows)\<in>set (frame_at w ref). removes (json_loads w) weekday time rows \<longrightarrow>
        cell_ne (rtr_id r) (rtr_id rows))"
  using closed_loop_result[OF assms(1)[unfolded filter_closed_restaurants_def] assms(2)]
  by auto

lemma row_closed_cong: "hours a = hours b \<Longrightarrow> row_closed loads a weekday time = row_closed loads b weekday time"
  by (simp add: row_closed_def)

lemma startswith_nonempty: "startswith (strip s) ''{'' \<Longrightarrow> s \<noteq> []"
  by (auto simp: startswith_def strip_def)

lemma is_JInt_map: "list_all is_JInt xs \<Longrightarrow> xs = map JInt (map the_int xs)"
proof (induction xs)
  case Nil
  then show ?case by simp
next
  case (Cons x xs)
  then show ?case by (cases x) auto
qed

lemma open_loop_ints:
  "\<forall>x\<in>set idx. x * 2 + 1 < length L \<Longrightarrow>
   open_loop (JArr (map JInt L)) t idx acc =
     Inr (acc \<or> (\<exists>x\<in>set idx. L ! (x * 2) \<le> t \<and> L ! (x * 2 + 1) \<ge> t))"
proof (induction idx arbitrary: acc)
  case Nil
  then show ?case by simp
next
  case (Cons x idx)
  then have b: "x * 2 < length L" "x * 2 + 1 < length L" by auto
  have IH: "\<And>acc. open_loop (JArr (map JInt L)) t idx acc =
     Inr (acc \<or> (\<exists>x\<in>set idx. L ! (x * 2) \<le> t \<and> L ! (x * 2 + 1) \<ge> t))"
    using Cons by simp
  have i0: "json_index (JArr (map JInt L)) (x * 2) = Inr (JInt (L ! (x * 2)))"
    using b by simp
  have i1: "json_index (JArr (map JInt L)) (x * 2 + 1) = Inr (JInt (L ! (x * 2 + 1)))"
    using b by simp
  show ?case
    unfolding open_loop.simps i0 i1
    by (cases "L ! (x * 2) \<le> t"; cases "L ! (x * 2 + 1) \<ge> t") (auto simp: IH)
qed

lemma row_closed_int_list:
  assumes "hours_list loads rows weekday = Some L"
  shows "row_closed loads rows weekday t = Inr (L = [] \<or> odd (length L) \<or> \<not> open_at L t)"
proof -
  from assms obtain s kv where s: "hours rows = CStr s" "startswith (strip s) ''{''"
    "loads s = Inr (JObj kv)"
    by (auto simp: hours_list_def split: cell.splits if_splits sum.splits json.splits)
  let ?ot = "case map_of kv weekday of None \<Rightarrow> JArr [] | Some v \<Rightarrow> v"
  have ot: "?ot = JArr (map JInt L)"
    using assms s is_JInt_map
    by (auto simp: hours_list_def split: option.splits json.splits if_splits)
  have ne: "s \<noteq> []" using s(2) by (rule startswith_nonempty)
  have rc: "row_closed loads rows weekday t =
      (if \<not> json_truthy ?ot then Inr True
       else (case json_len ?ot of Inl e \<Rightarrow> Inl e
             | Inr n \<Rightarrow> if n mod 2 = 1 then Inr True
                 else if n \<ge> 2 then (case open_loop ?ot t [0..<n div 2] False of
                         Inl e \<Rightarrow> Inl e | Inr is_open \<Rightarrow> Inr (\<not> is_open))
                 else Inr True))"
    using s ne by (simp add: row_closed_def getitem_def Let_def)
  show ?thesis
  proof (cases "L = []")
    case True
    then show ?thesis by (simp add: rc ot)
  next
    case ne: False
    show ?thesis
    proof (cases "odd (length L)")
      case True
      then show ?thesis using ne by (simp add: rc ot odd_iff_mod_2_eq_one)
    next
      case False
      then have ev: "length L mod 2 \<noteq> 1" by (simp add: odd_iff_mod_2_eq_one)
      have "length L \<noteq> 0" "length L \<noteq> 1" using ne False by auto
      then have ge: "length L \<ge> 2" by arith
      have idx: "\<forall>x\<in>set [0..<length L div 2]. x * 2 + 1 < length L"
        using False by (auto elim!: evenE)
      have "open_loop (JArr (map JInt L)) t [0..<length L div 2] False = Inr (open_at L t)"
        unfolding open_loop_ints[OF idx] open_at_def by auto
      then show ?thesis using ne False ev ge by (simp add: rc ot)
    qed
  qed
qed

lemma kept_iff_not_closed:
  assumes run: "filter_closed_restaurants ref weekday time w = (ref', w')"
    and ref: "ref < length (frames w)"
    and mem: "(i, r) \<in> set (frame_at w ref)"
    and fd: "\<forall>(j, rows)\<in>set (frame_at w ref). rtr_id rows = rtr_id r \<longrightarrow> hours rows = hours r"
  shows "row_closed (json_loads w) r weekday time \<noteq> Inr True \<Longrightarrow> (i, r) \<in> set (frame_at w' ref')"
    and "(i, r) \<notin> set (frame_at w' ref') \<Longrightarrow> row_closed (json_loads w) r weekday time = Inr True"
    and "row_closed (json_loads w) r weekday time = Inr True \<Longrightarrow> rtr_id r \<notin> {Absent, CNone, CNaN}
         \<Longrightarrow> (i, r) \<notin> set (frame_at w' ref')"
proof -
  note iff = filter_closed_restaurants_rows[OF run ref, of i r]
  have same: "row_closed (json_loads w) rows weekday time = row_closed (json_loads w) r weekday time"
    if "(j, rows) \<in> set (frame_at w ref)" "\<not> cell_ne (rtr_id r) (rtr_id rows)" for j rows
  proof -
    from that(2) have "rtr_id rows = rtr_id r" by (auto simp: cell_ne_def)
    with fd that(1) have "hours rows = hours r" by auto
    then show ?thesis by (rule row_closed_cong)
  qed
  show 2: "row_closed (json_loads w) r weekday time = Inr True" if "(i, r) \<notin> set (frame_at w' ref')"
  proof -
    from that iff mem obtain j rows where jr: "(j, rows) \<in> set (frame_at w ref)"
      "removes (json_loads w) weekday time rows" "\<not> cell_ne (rtr_id r) (rtr_id rows)"
      by auto
    from same[OF jr(1,3)] jr(2) show ?thesis by (simp add: removes_def)
  qed
  show "(i, r) \<in> set (frame_at w' ref')" if "row_closed (json_loads w) r weekday time \<noteq> Inr True"
    using that 2 by blast
  show "(i, r) \<notin> set (frame_at w' ref')"
    if "row_closed (json_loads w) r weekday time = Inr True" "rtr_id r \<notin> {Absent, CNone, CNaN}"
  proof -
    have "removes (json_loads w) weekday time r" using that by (simp add: removes_def)
    moreover have "\<not> cell_ne (rtr_id r) (rtr_id r)" using that(2) by (simp add: cell_ne_def)
    ultimately show ?thesis using iff mem by blast
  qed
qed

text \<open>
  C3.  For a row of the frame given to \<open>filter_closed_restaurants\<close> whose restaurant has one
  \<open>hours\<close> text in the frame, and whose text gives a list of integers for the weekday: the row
  is kept if and only if the list is not empty, has even length and has a pair
  \<open>open \<le> t \<le> close\<close>.  So an empty or odd-length list excludes the restaurant, and so does
  a list none of whose pairs holds \<open>t\<close>.
\<close>

theorem filter_closed_restaurants_open_hours:
  assumes "filter_closed_restaurants ref weekday time w = (ref', w')"
    and "ref < length (frames w)"
    and "(i, r) \<in> set (frame_at w ref)"
    and "rtr_id r \<notin> {Absent, CNone, CNaN}"
    and "\<forall>(j, rows)\<in>set (frame_at w ref). rtr_id rows = rtr_id r \<longrightarrow> hours rows = hours r"
    and "hours_list (json_loads w) r weekday = Some opening_times"
  shows "(i, r) \<in> set (frame_at w' ref') \<longleftrightarrow>
     opening_times \<noteq> [] \<and> even (length opening_times) \<and> open_at opening_times time"
proof -
  note k = kept_iff_not_closed[OF assms(1,2,3,5)]
  note rc = row_closed_int_list[OF assms(6), of time]
  show ?thesis
  proof (cases "opening_times \<noteq> [] \<and> even (length opening_times) \<and> open_at opening_times time")
    case True
    then have "row_closed (json_loads w) r weekday time \<noteq> Inr True" using rc by auto
    from k(1)[OF this] True show ?thesis by simp
  next
    case False
    then have "row_closed (json_loads w) r weekday time = Inr True" using rc by auto
    from k(3)[OF this assms(4)] False show ?thesis by simp
  qed
qed

lemma demo_hours_list:
  "hours_list (json_loads demo_world) (demo_restaurant 1 (CStr ''{\"Mon\": [1000, 2000]}'')) ''Mon''
     = Some [1000, 2000]"
  "hours_list (json_loads demo_world) (demo_restaurant 2 (CStr ''{\"Mon\": []}'')) ''Mon'' = Some []"
  by (simp_all add: hours_list_def demo_defs startswith_def strip_def is_space_def)

lemma demo_restaurants_frame:
  "frame_at demo_world 1 =
     [(0, demo_restaurant 1 (CStr ''{\"Mon\": [1000, 2000]}'')),
      (1, demo_restaurant 2 (CStr ''{\"Mon\": []}'')),
      (2, demo_restaurant 3 CNone)]"
  "1 < length (frames demo_world)"
  "frame_at demo_world (Suc 0) =
     [(0, demo_restaurant 1 (CStr ''{\"Mon\": [1000, 2000]}'')),
      (1, demo_restaurant 2 (CStr ''{\"Mon\": []}'')),
      (2, demo_restaurant 3 CNone)]"
  by (simp_all add: demo_world_def frame_at_def)

lemma demo_restaurant_sel: "rtr_id (demo_restaurant r h) = CInt r" "hours (demo_restaurant r h) = h"
  by (simp_all add: demo_restaurant_def no_columns_def)

theorem filter_closed_restaurants_open_hours_witness:
  "(0, demo_restaurant 1 (CStr ''{\"Mon\": [1000, 2000]}''))
     \<in> set (frame_at (snd (filter_closed_restaurants 1 ''Mon'' 1200 demo_world))
                      (fst (filter_closed_restaurants 1 ''Mon'' 1200 demo_world))) \<and>
   (0, demo_restaurant 1 (CStr ''{\"Mon\": [1000, 2000]}''))
     \<notin> set (frame_at (snd (filter_closed_restaurants 1 ''Mon'' 2200 demo_world))
                      (fst (filter_closed_restaurants 1 ''Mon'' 2200 demo_world))) \<and>
   (1, demo_restaurant 2 (CStr ''{\"Mon\": []}''))
     \<notin> set (frame_at (snd (filter_closed_restaurants 1 ''Mon'' 1200 demo_world))
                      (fst (filter_closed_restaurants 1 ''Mon'' 1200 demo_world)))"
proof -
  have run: "filter_closed_restaurants 1 ''Mon'' t demo_world =
      (fst (filter_closed_restaurants 1 ''Mon'' t demo_world),
       snd (filter_closed_restaurants 1 ''Mon'' t demo_world))" for t
    by simp
  have m0: "(0, demo_restaurant 1 (CStr ''{\"Mon\": [1000, 2000]}'')) \<in> set (frame_at demo_world 1)"
    and m1: "(1, demo_restaurant 2 (CStr ''{\"Mon\": []}'')) \<in> set (frame_at demo_world 1)"
    by (simp_all add: demo_restaurants_frame)
  have k: "rtr_id (demo_restaurant r h) \<notin> {Absent, CNone, CNaN}" for r h
    by (simp add: demo_restaurant_sel)
  have fd0: "\<forall>(j, rows)\<in>set (frame_at demo_world 1).
      rtr_id rows = rtr_id (demo_restaurant 1 (CStr ''{\"Mon\": [1000, 2000]}'')) \<longrightarrow>
      hours rows = hours (demo_restaurant 1 (CStr ''{\"Mon\": [1000, 2000]}''))"
    and fd1: "\<forall>(j, rows)\<in>set (frame_at demo_world 1).
      rtr_id rows = rtr_id (demo_restaurant 2 (CStr ''{\"Mon\": []}'')) \<longrightarrow>
      hours rows = hours (demo_restaurant 2 (CStr ''{\"Mon\": []}''))"
    by (simp_all add: demo_restaurants_frame demo_restaurant_sel)
  have o: "open_at [1000, 2000] 1200" "\<not> open_at [1000, 2000] 2200"
    by (simp_all add: open_at_def)
  from filter_closed_restaurants_open_hours
    [OF run demo_restaurants_frame(2) m0 k fd0 demo_hours_list(1), of 1200] o
  have a: "(0, demo_restaurant 1 (CStr ''{\"Mon\": [1000, 2000]}''))
     \<in> set (frame_at (snd (filter_closed_restaurants 1 ''Mon'' 1200 demo_world))
                      (fst (filter_closed_restaurants 1 ''Mon'' 1200 demo_world)))"
    by simp
  from filter_closed_restaurants_open_hours
    [OF run demo_restaurants_frame(2) m0 k fd0 demo_hours_list(1), of 2200] o
  have b: "(0, demo_restaurant 1 (CStr ''{\"Mon\": [1000, 2000]}''))
     \<notin> set (frame_at (snd (filter_closed_restaurants 1 ''Mon'' 2200 demo_world))
                      (fst (filter_closed_restaurants 1 ''Mon'' 2200 demo_world)))"
    by simp
  from filter_closed_restaurants_open_hours
    [OF run demo_restaurants_frame(2) m1 k fd1 demo_hours_list(2), of 1200]
  have c: "(1, demo_restaurant 2 (CStr ''{\"Mon\": []}''))
     \<notin> set (frame_at (snd (filter_closed_restaurants 1 ''Mon'' 1200 demo_world))
                      (fst (filter_closed_restaurants 1 ''Mon'' 1200 demo_world)))"
    by simp
  from a b c show ?thesis by (intro conjI)
qed

lemma row_closed_True_shape:
  assumes "row_closed loads r weekday time = Inr True"
  shows "\<exists>s kv. hours r = CStr s \<and> startswith (strip s) ''{'' \<and> loads s = Inr (JObj kv) \<and>
     (let opening_times = (case map_of kv weekday of None \<Rightarrow> JArr [] | Some v \<Rightarrow> v)
      in \<not> json_truthy opening_times \<or>
         (\<exists>n. json_len opening_times = Inr n \<and>
              (odd n \<or> open_loop opening_times time [0..<n div 2] False = Inr False)))"
proof -
  from assms obtain s where s: "hours r = CStr s" "s \<noteq> []"
    by (cases "hours r") (auto simp: row_closed_def getitem_def split: if_splits)
  with assms have sw: "startswith (strip s) ''{''"
    by (auto simp: row_closed_def getitem_def split: if_splits)
  with assms s obtain kv where kv: "loads s = Inr (JObj kv)"
    by (cases "loads s") (auto simp: row_closed_def getitem_def split: json.splits)
  let ?ot = "case map_of kv weekday of None \<Rightarrow> JArr [] | Some v \<Rightarrow> v"
  have rc: "row_closed loads r weekday time =
      (if \<not> json_truthy ?ot then Inr True
       else (case json_len ?ot of Inl e \<Rightarrow> Inl e
             | Inr n \<Rightarrow> if n mod 2 = 1 then Inr True
                 else if n \<ge> 2 then (case open_loop ?ot time [0..<n div 2] False of
                         Inl e \<Rightarrow> Inl e | Inr is_open \<Rightarrow> Inr (\<not> is_open))
                 else Inr True))"
    using s sw kv by (simp add: row_closed_def getitem_def Let_def)
  have "\<not> json_truthy ?ot \<or>
         (\<exists>n. json_len ?ot = Inr n \<and> (odd n \<or> open_loop ?ot time [0..<n div 2] False = Inr False))"
  proof (cases "json_truthy ?ot")
    case False
    then show ?thesis by simp
  next
    case True
    with assms rc obtain n where n: "json_len ?ot = Inr n" by (cases "json_len ?ot") auto
    have "n \<noteq> 0" using True n by (cases ?ot) auto
    show ?thesis
    proof (cases "odd n")
      case True
      with n show ?thesis by blast
    next
      case False
      then have "n \<noteq> 1" by auto
      with \<open>n \<noteq> 0\<close> have "n \<ge> 2" by arith
      moreover have "n mod 2 \<noteq> 1" using False by (simp add: odd_iff_mod_2_eq_one)
      ultimately have "n \<ge> 2" "n mod 2 \<noteq> 1" by auto
      with assms rc True n have "open_loop ?ot time [0..<n div 2] False = Inr False"
        by (cases "open_loop ?ot time [0..<n div 2] False") auto
      with n show ?thesis by blast
    qed
  qed
  with s sw kv show ?thesis by (simp add: Let_def)
qed

lemma merge_rows_unmatched:
  assumes "(i, l) \<in> set items" "hours l = Absent" "\<forall>(j, q)\<in>set rests. rtr_id q \<noteq> rtr_id l"
  shows "l\<lparr>hours := CNaN\<rparr> \<in> set (merge_rows items rests)"
proof -
  have "filter (\<lambda>(j, r). rtr_id r = rtr_id l) rests = []"
    using assms(3) by (auto simp: filter_empty_conv)
  then show ?thesis
    using assms(1,2) unfolding merge_rows_def by (auto intro!: bexI[of _ "(i, l)"])
qed

lemma demo_closed_late:
  "map fst (frame_at (snd (filter_closed_restaurants 1 ''Mon'' 2200 demo_world))
                     (fst (filter_closed_restaurants 1 ''Mon'' 2200 demo_world))) = [2]"
  by code_simp

lemma irregular_closed:
  "map fst (frame_at (snd (filter_closed_restaurants 0 ''Mon'' 1200 irregular_world))
                     (fst (filter_closed_restaurants 0 ''Mon'' 1200 irregular_world))) = [3]"
  by code_simp

lemma irregular_hours:
  "map (\<lambda>(i, r). hours_list (json_loads irregular_world) r ''Mon'') (frame_at irregular_world 0)
     = [None, None, None, None]"
  by code_simp

text \<open>
  C10, as the claim states it, fails in its last part: an empty or odd-length list is not
  the only thing that excludes a row.  On Monday at 22:00 the restaurant with the hours
  \<open>[1000, 2000]\<close>, a list of two, is removed; and a restaurant whose value for the weekday is
  \<open>null\<close>, \<open>0\<close> or the text \<open>abc\<close>, none of them a list, is removed at any time.
\<close>

theorem filter_closed_restaurants_other_exclusions:
  "hours_list (json_loads demo_world) (demo_restaurant 1 (CStr ''{\"Mon\": [1000, 2000]}'')) ''Mon''
     = Some [1000, 2000] \<and>
   map fst (frame_at demo_world 1) = [0, 1, 2] \<and>
   map fst (frame_at (snd (filter_closed_restaurants 1 ''Mon'' 2200 demo_world))
                     (fst (filter_closed_restaurants 1 ''Mon'' 2200 demo_world))) = [2] \<and>
   map (\<lambda>(i, r). hours r) (frame_at irregular_world 0)
     = [CStr ''{\"Mon\": null}'', CStr ''{\"Mon\": 0}'', CStr ''{\"Mon\": \"abc\"}'', CNone] \<and>
   map (\<lambda>(i, r). hours_list (json_loads irregular_world) r ''Mon'') (frame_at irregular_world 0)
     = [None, None, None, None] \<and>
   map fst (frame_at (snd (filter_closed_restaurants 0 ''Mon'' 1200 irregular_world))
                     (fst (filter_closed_restaurants 0 ''Mon'' 1200 irregular_world))) = [3]"
proof (intro conjI)
  show "hours_list (json_loads demo_world) (demo_restaurant 1 (CStr ''{\"Mon\": [1000, 2000]}'')) ''Mon''
     = Some [1000, 2000]"
    by (rule demo_hours_list(1))
  show "map fst (frame_at demo_world 1) = [0, 1, 2]"
    by (simp add: demo_restaurants_frame)
  show "map fst (frame_at (snd (filter_closed_restaurants 1 ''Mon'' 2200 demo_world))
                     (fst (filter_closed_restaurants 1 ''Mon'' 2200 demo_world))) = [2]"
    by (rule demo_closed_late)
  show "map (\<lambda>(i, r). hours r) (frame_at irregular_world 0)
     = [CStr ''{\"Mon\": null}'', CStr ''{\"Mon\": 0}'', CStr ''{\"Mon\": \"abc\"}'', CNone]"
    by (simp add: irregular_world_def frame_at_def demo_restaurant_sel)
  show "map (\<lambda>(i, r). hours_list (json_loads irregular_world) r ''Mon'') (frame_at irregular_world 0)
     = [None, None, None, None]"
    by (rule irregular_hours)
  show "map fst (frame_at (snd (filter_closed_restaurants 0 ''Mon'' 1200 irregular_world))
                     (fst (filter_closed_restaurants 0 ''Mon'' 1200 irregular_world))) = [3]"
    by (rule irregular_closed)
qed

text \<open>
  C10, amended.  The open-hours filter fails open: a row whose \<open>hours\<close> is \<open>None\<close>, empty or
  \<open>NaN\<close>, or a text that does not start with \<open>{\<close>, or whose processing raises an exception, is
  kept.  A row is removed only when its text is a JSON object whose value for the weekday
  counts as false (an empty list, \<open>null\<close>, zero, an empty text), or has odd length, or has even
  length and no pair that holds the time.  An item whose restaurant is not in the restaurant
  table gets \<open>NaN\<close> from the left join, and \<open>NaN\<close> raises.
\<close>

theorem filter_closed_restaurants_fails_open:
  assumes "filter_closed_restaurants ref weekday time w = (ref', w')"
    and "ref < length (frames w)"
    and "(i, r) \<in> set (frame_at w ref)"
    and "\<forall>(j, rows)\<in>set (frame_at w ref). rtr_id rows = rtr_id r \<longrightarrow> hours rows = hours r"
  shows "(hours r \<in> {CNone, CStr [], CNaN} \<or>
          (\<exists>s. hours r = CStr s \<and> \<not> startswith (strip s) ''{'') \<or>
          (\<exists>e. row_closed (json_loads w) r weekday time = Inl e)
          \<longrightarrow> (i, r) \<in> set (frame_at w' ref')) \<and>
         ((i, r) \<notin> set (frame_at w' ref') \<longrightarrow>
            (\<exists>s kv. hours r = CStr s \<and> startswith (strip s) ''{'' \<and> json_loads w s = Inr (JObj kv) \<and>
               (let opening_times = (case map_of kv weekday of None \<Rightarrow> JArr [] | Some v \<Rightarrow> v)
                in \<not> json_truthy opening_times \<or>
                   (\<exists>n. json_len opening_times = Inr n \<and>
                      (odd n \<or> open_loop opening_times time [0..<n div 2] False = Inr False))))) \<and>
         (\<forall>items rests k l. (k, l) \<in> set items \<and> hours l = Absent \<and>
             (\<forall>(j, q)\<in>set rests. rtr_id q \<noteq> rtr_id l)
             \<longrightarrow> l\<lparr>hours := CNaN\<rparr> \<in> set (merge_rows items rests) \<and>
                 (\<exists>e. row_closed (json_loads w) (l\<lparr>hours := CNaN\<rparr>) weekday time = Inl e))"
proof (intro conjI impI allI)
  note k = kept_iff_not_closed[OF assms]
  assume h: "hours r \<in> {CNone, CStr [], CNaN} \<or>
          (\<exists>s. hours r = CStr s \<and> \<not> startswith (strip s) ''{'') \<or>
          (\<exists>e. row_closed (json_loads w) r weekday time = Inl e)"
  have "row_closed (json_loads w) r weekday time \<noteq> Inr True"
  proof
    assume t: "row_closed (json_loads w) r weekday time = Inr True"
    from row_closed_True_shape[OF t] obtain s where
      s: "hours r = CStr s" "startswith (strip s) ''{''" by blast
    from s(2) have "s \<noteq> []" by (rule startswith_nonempty)
    with h s t show False by auto
  qed
  then show "(i, r) \<in> set (frame_at w' ref')" by (rule k(1))
next
  note k = kept_iff_not_closed[OF assms]
  assume "(i, r) \<notin> set (frame_at w' ref')"
  then have "row_closed (json_loads w) r weekday time = Inr True" by (rule k(2))
  then show "\<exists>s kv. hours r = CStr s \<and> startswith (strip s) ''{'' \<and> json_loads w s = Inr (JObj kv) \<and>
               (let opening_times = (case map_of kv weekday of None \<Rightarrow> JArr [] | Some v \<Rightarrow> v)
                in \<not> json_truthy opening_times \<or>
                   (\<exists>n. json_len opening_times = Inr n \<and>
                      (odd n \<or> open_loop opening_times time [0..<n div 2] False = Inr False)))"
    by (rule row_closed_True_shape)
next
  fix items :: frame and rests :: frame and k l
  assume a: "(k, l) \<in> set items \<and> hours l = Absent \<and> (\<forall>(j, q)\<in>set rests. rtr_id q \<noteq> rtr_id l)"
  then show "l\<lparr>hours := CNaN\<rparr> \<in> set (merge_rows items rests)"
    using merge_rows_unmatched[of k l items rests] by blast
  show "\<exists>e. row_closed (json_loads w) (l\<lparr>hours := CNaN\<rparr>) weekday time = Inl e"
    by (simp add: row_closed_def getitem_def)
qed

theorem filter_closed_restaurants_fails_open_witness:
  "hours (demo_restaurant 3 CNone) \<in> {CNone, CStr [], CNaN} \<and>
   (2, demo_restaurant 3 CNone)
     \<in> set (frame_at (snd (filter_closed_restaurants 1 ''Mon'' 1200 demo_world))
                      (fst (filter_closed_restaurants 1 ''Mon'' 1200 demo_world))) \<and>
   demo_item 120 9 ''Soup'' CNone\<lparr>hours := CNaN\<rparr>
     \<in> set (merge_rows (frame_at demo_world 0) (frame_at demo_world 1))"
proof -
  have run: "filter_closed_restaurants 1 ''Mon'' 1200 demo_world =
      (fst (filter_closed_restaurants 1 ''Mon'' 1200 demo_world),
       snd (filter_closed_restaurants 1 ''Mon'' 1200 demo_world))"
    by simp
  have m: "(2, demo_restaurant 3 CNone) \<in> set (frame_at demo_world 1)"
    by (simp add: demo_restaurants_frame)
  have fd: "\<forall>(j, rows)\<in>set (frame_at demo_world 1).
      rtr_id rows = rtr_id (demo_restaurant 3 CNone) \<longrightarrow> hours rows = hours (demo_restaurant 3 CNone)"
    by (simp add: demo_restaurants_frame demo_restaurant_sel)
  have h: "hours (demo_restaurant 3 CNone) \<in> {CNone, CStr [], CNaN}"
    by (simp add: demo_restaurant_sel)
  note inst = filter_closed_restaurants_fails_open [OF run demo_restaurants_frame(2) m fd]
  have a: "(2, demo_restaurant 3 CNone)
     \<in> set (frame_at (snd (filter_closed_restaurants 1 ''Mon'' 1200 demo_world))
                      (fst (filter_closed_restaurants 1 ''Mon'' 1200 demo_world)))"
    by (rule inst[THEN conjunct1, THEN mp, OF disjI1[OF h]])
  have soup: "(3, demo_item 120 9 ''Soup'' CNone) \<in> set (frame_at demo_world 0) \<and>
      hours (demo_item 120 9 ''Soup'' CNone) = Absent \<and>
      (\<forall>(j, q)\<in>set (frame_at demo_world 1). rtr_id q \<noteq> rtr_id (demo_item 120 9 ''Soup'' CNone))"
    by (simp add: demo_restaurants_frame demo_restaurant_sel)
      (simp add: demo_world_def frame_at_def demo_item_def no_columns_def)
  from inst[THEN conjunct2, THEN conjunct2, rule_format, OF soup]
  have b: "demo_item 120 9 ''Soup'' CNone\<lparr>hours := CNaN\<rparr>
     \<in> set (merge_rows (frame_at demo_world 0) (frame_at demo_world 1))"
    by (rule conjunct1)
  from h a b show ?thesis by (intro conjI)
qed

section \<open>The generator: properties\<close>

lemma extends_refl: "extends w w"
  by (simp add: extends_def)

lemma extends_trans: "extends a b \<Longrightarrow> extends b c \<Longrightarrow> extends a c"
  unfolding extends_def by (metis prefix_order.trans)

lemma extends_frame_at: "extends w w' \<Longrightarrow> r < length (frames w) \<Longrightarrow> frame_at w' r = frame_at w r"
  unfolding extends_def frame_at_def by (auto simp: prefix_def nth_append)

lemma extends_length: "extends w w' \<Longrightarrow> length (frames w) \<le> length (frames w')"
  unfolding extends_def by (auto simp: prefix_def)

lemma extends_alloc: "extends w (snd (alloc f w))"
  by (simp add: extends_def alloc_def)

lemma closed_loop_ref:
  "closed_loop rest weekday time cur w = (cur', w') \<Longrightarrow> cur < length (frames w) \<Longrightarrow> cur \<le> cur'"
proof (induction rest arbitrary: cur w)
  case Nil
  then show ?case by simp
next
  case (Cons p rest)
  obtain index rows where p: "p = (index, rows)" by (cases p)
  show ?case
  proof (cases "removes (json_loads w) weekday time rows")
    case False
    then have rec: "closed_loop rest weekday time cur w = (cur', w')"
      using Cons.prems(1) p
      by (auto simp: removes_def getitem_def split: sum.splits bool.splits cell.splits)
    from Cons.IH[OF rec Cons.prems(2)] show ?thesis .
  next
    case True
    let ?f = "filter (\<lambda>(i, r). cell_ne (rtr_id r) (rtr_id rows)) (frame_at w cur)"
    from True have rc: "row_closed (json_loads w) rows weekday time = Inr True"
      and gi: "getitem (rtr_id rows) = Inr (rtr_id rows)"
      by (auto simp: removes_def getitem_def split: cell.splits)
    have rec: "closed_loop rest weekday time (fst (alloc ?f w)) (snd (alloc ?f w)) = (cur', w')"
      using Cons.prems(1) p rc gi by (simp add: case_prod_beta)
    have "fst (alloc ?f w) < length (frames (snd (alloc ?f w)))" by (simp add: alloc_def)
    from Cons.IH[OF rec this] Cons.prems(2) show ?thesis by (simp add: alloc_def)
  qed
qed

lemma filter_closed_restaurants_extends:
  assumes "filter_closed_restaurants ref weekday time w = (ref', w')" "ref < length (frames w)"
  shows "extends w w' \<and> ref \<le> ref' \<and> ref' < length (frames w') \<and> rng w' = rng w \<and> calls w' = calls w"
proof -
  note r = closed_loop_result[OF assms(1)[unfolded filter_closed_restaurants_def] assms(2)]
  note g = closed_loop_ref[OF assms(1)[unfolded filter_closed_restaurants_def] assms(2)]
  from r have "take (length (frames w)) (frames w') = frames w" by simp
  then have "prefix (frames w) (frames w')" by (metis take_is_prefix)
  with r g show ?thesis by (simp add: extends_def)
qed

lemma drop_loop_put:
  "drop_loop rest allergens ref w = (res, w') \<Longrightarrow> \<exists>f. w' = put ref f w"
proof (induction rest arbitrary: w)
  case Nil
  then show ?case using put_same[of ref w] by (metis drop_loop.simps(1) prod.inject)
next
  case (Cons p rest)
  obtain index rows where p: "p = (index, rows)" by (cases p)
  let ?w1 = "put ref (filter (\<lambda>(i, r). i \<noteq> index) (frame_at w ref)) w"
  from Cons.prems p consider
      (stop) "w' = w"
    | (skip) "drop_loop rest allergens ref w = (res, w')"
    | (drop) "drop_loop rest allergens ref ?w1 = (res, w')"
    by (auto simp: getitem_def split: cell.splits if_splits)
  then show ?case
  proof cases
    case stop
    then show ?thesis using put_same[of ref w] by metis
  next
    case skip
    then show ?thesis by (rule Cons.IH)
  next
    case drop
    from Cons.IH[OF drop] obtain f where "w' = put ref f ?w1" by blast
    then have "w' = put ref f w" by (simp add: put_put)
    then show ?thesis by blast
  qed
qed

lemma filter_allergens_put:
  "filter_allergens ref allergens w = (res, w') \<Longrightarrow> \<exists>f. w' = put ref f w"
  using drop_loop_put[of "frame_at w ref" allergens ref w res w'] put_same[of ref w]
  by (auto simp: filter_allergens_def split: if_splits) metis

lemma limit_scope_world:
  "limit_scope items num_choices w = (res, w') \<Longrightarrow>
   frames w' = frames w \<and> calls w' = calls w \<and> llm w' = llm w \<and> json_loads w' = json_loads w"
  by (auto simp: limit_scope_def Let_def random_sample_def split: if_splits)

lemma pd_merge_world:
  "pd_merge left right w = (Inl e, w') \<Longrightarrow> w' = w"
  "pd_merge left right w = (Inr m, w') \<Longrightarrow>
     m = length (frames w) \<and> frames w' = frames w @ [enumerate 0 (merge_rows (frame_at w left) (frame_at w right))] \<and>
     calls w' = calls w \<and> llm w' = llm w \<and> json_loads w' = json_loads w \<and> rng w' = rng w"
  by (auto simp: pd_merge_def alloc_def split: if_splits)

lemma get_context_extends:
  assumes "get_context self allergens weekday order_time num_choices w = (res, w')"
  shows "extends w w' \<and> calls w' = calls w"
proof (cases "pd_merge (menu_items self) (restaurants self) w")
  case (Pair r1 w1)
  show ?thesis
  proof (cases r1)
    case (Inl e)
    with Pair assms pd_merge_world(1)[of "menu_items self" "restaurants self" w e w1]
    show ?thesis by (simp add: get_context_def extends_refl)
  next
    case (Inr merged)
    note m = pd_merge_world(2)[OF Pair[unfolded Inr]]
    let ?n = "length (frames w)"
    obtain c2 w2 where fc: "filter_closed_restaurants merged weekday order_time w1 = (c2, w2)"
      by (cases "filter_closed_restaurants merged weekday order_time w1")
    have mv: "merged < length (frames w1)" using m by simp
    note e12 = filter_closed_restaurants_extends[OF fc mv]
    obtain r3 w3 where fa: "filter_allergens c2 allergens w2 = (r3, w3)"
      by (cases "filter_allergens c2 allergens w2")
    from filter_allergens_put[OF fa] obtain f where w3: "w3 = put c2 f w2" by blast
    have p1: "prefix (frames w) (frames w1)" using m by simp
    have p2: "prefix (frames w1) (frames w2)" using e12 by (simp add: extends_def)
    from p1 p2 have p02: "prefix (frames w) (frames w2)" by (rule prefix_order.trans)
    then obtain zs where zs: "frames w2 = frames w @ zs" by (auto simp: prefix_def)
    have "?n \<le> c2" using e12 m by simp
    then have "frames w3 = frames w @ zs[c2 - ?n := f]"
      unfolding w3 put_def by (simp add: zs list_update_append)
    then have p3: "prefix (frames w) (frames w3)" by simp
    have o3: "calls w3 = calls w \<and> llm w3 = llm w \<and> json_loads w3 = json_loads w"
      using m e12 by (simp add: w3 put_def extends_def)
    have e3: "extends w w3 \<and> calls w3 = calls w" using p3 o3 by (simp add: extends_def)
    show ?thesis
    proof (cases r3)
      case (Inl e)
      with assms Pair Inr fc fa have "w' = w3" by (simp add: get_context_def)
      with e3 show ?thesis by simp
    next
      case (Inr combined)
      obtain r4 w4 where ls: "limit_scope combined num_choices w3 = (r4, w4)"
        by (cases "limit_scope combined num_choices w3")
      note l = limit_scope_world[OF ls]
      have e4: "extends w w4 \<and> calls w4 = calls w" using e3 l by (simp add: extends_def)
      have "w' = w4"
        using assms Pair \<open>r1 = Inr merged\<close> fc fa Inr ls
        by (auto simp: get_context_def split: sum.splits)
      with e4 show ?thesis by simp
    qed
  qed
qed

lemma generate_world:
  "generate system prompt w = (raw, w') \<Longrightarrow>
   frames w' = frames w \<and> calls w' = calls w @ [(system, prompt)] \<and> llm w' = llm w \<and>
   json_loads w' = json_loads w \<and> raw = llm w (length (calls w)) system prompt"
  by (auto simp: generate_def)

lemma attempt_extends:
  assumes "attempt self preferences allergens weekday meal order_time num_choices w = (res, w')"
  shows "extends w w' \<and> length (calls w') \<le> length (calls w) + 1"
proof -
  obtain r1 w1 where gc: "get_context self allergens weekday order_time num_choices w = (r1, w1)"
    by (cases "get_context self allergens weekday order_time num_choices w")
  note e1 = get_context_extends[OF gc]
  show ?thesis
  proof (cases r1)
    case (Inl e)
    with assms gc have "w' = w1" by (simp add: attempt_def)
    with e1 show ?thesis by simp
  next
    case (Inr ci)
    obtain ctx item_ids where ci: "ci = (ctx, item_ids)" by (cases ci)
    obtain raw w2 where g: "generate SYSTEM_TEMPLATE (make_prompt preferences ctx meal) w1 = (raw, w2)"
      by (cases "generate SYSTEM_TEMPLATE (make_prompt preferences ctx meal) w1")
    note gw = generate_world[OF g]
    have e2: "extends w w2" and c2: "length (calls w2) = length (calls w) + 1"
      using e1 gw by (auto simp: extends_def)
    from assms gc Inr ci g have "w' = w2" by (auto simp: attempt_def Let_def split: if_splits)
    with e2 c2 show ?thesis by simp
  qed
qed

lemma pick_loop_extends:
  "pick_loop tries self preferences allergens weekday meal order_time num_choices llm_output w = (res, w')
   \<Longrightarrow> extends w w' \<and> length (calls w') \<le> length (calls w) + tries"
proof (induction tries arbitrary: num_choices llm_output w)
  case 0
  then show ?case by (simp add: extends_refl)
next
  case (Suc tries)
  obtain o1 w1 where at: "attempt self preferences allergens weekday meal order_time num_choices w = (o1, w1)"
    by (cases "attempt self preferences allergens weekday meal order_time num_choices w")
  note e1 = attempt_extends[OF at]
  show ?case
  proof (cases o1)
    case (Raised e)
    with Suc.prems at have "w' = w1" by simp
    with e1 show ?thesis by simp
  next
    case (Chosen v)
    with Suc.prems at have "w' = w1" by simp
    with e1 show ?thesis by simp
  next
    case (Invalid raw)
    with Suc.prems at
    have "pick_loop tries self preferences allergens weekday meal order_time
            (num_choices + ITEM_CHOICES) raw w1 = (res, w')"
      by simp
    from Suc.IH[OF this] e1 show ?thesis by (auto intro: extends_trans)
  qed
qed

lemma pick_menu_item_extends:
  "pick_menu_item self preferences allergens weekday meal_number w = (res, w') \<Longrightarrow>
   extends w w' \<and> length (calls w') \<le> length (calls w) + 3"
  using pick_loop_extends[of MAX_LLM_TRIES self preferences allergens weekday _ _ ITEM_CHOICES "[]" w res w']
  by (auto simp: pick_menu_item_def MAX_LLM_TRIES_def extends_refl split: sum.splits)

lemma meal_loop_extends:
  "meal_loop self preferences allergens date current_weekday meal_numbers menu w = (res, w') \<Longrightarrow>
   extends w w'"
proof (induction meal_numbers arbitrary: menu w)
  case Nil
  then show ?case by (simp add: extends_refl)
next
  case (Cons m rest)
  show ?case
  proof (cases "re_search (entry_pattern date m) menu")
    case True
    with Cons.prems have "meal_loop self preferences allergens date current_weekday rest menu w = (res, w')"
      by simp
    then show ?thesis by (rule Cons.IH)
  next
    case False
    obtain r1 w1 where pk: "pick_menu_item self preferences allergens current_weekday m w = (r1, w1)"
      by (cases "pick_menu_item self preferences allergens current_weekday m w")
    from pick_menu_item_extends[OF pk] have e1: "extends w w1" by simp
    show ?thesis
    proof (cases r1)
      case (Inl e)
      with Cons.prems False pk have "w' = w1" by simp
      with e1 show ?thesis by simp
    next
      case (Inr v)
      with Cons.prems False pk
      have "meal_loop self preferences allergens date current_weekday rest
              (append_entry menu (new_entry date v m)) w1 = (res, w')"
        by simp
      from Cons.IH[OF this] e1 show ?thesis by (rule extends_trans[rotated])
    qed
  qed
qed

lemma day_loop_extends:
  "day_loop days self preferences allergens date next_date current_weekday meal_numbers menu w = (res, w')
   \<Longrightarrow> extends w w'"
proof (induction days arbitrary: date next_date current_weekday menu w)
  case 0
  then show ?case by (simp add: extends_refl)
next
  case (Suc days)
  obtain r1 w1 where ml: "meal_loop self preferences allergens date current_weekday meal_numbers menu w = (r1, w1)"
    by (cases "meal_loop self preferences allergens date current_weekday meal_numbers menu w")
  note e1 = meal_loop_extends[OF ml]
  show ?case
  proof (cases r1)
    case (Inl e)
    with Suc.prems ml have "w' = w1" by simp
    with e1 show ?thesis by simp
  next
    case (Inr menu')
    show ?thesis
    proof (cases "get_weekday_and_increment next_date")
      case (Inl e)
      with Suc.prems ml Inr have "w' = w1" by simp
      with e1 show ?thesis by simp
    next
      case r: (Inr nd)
      obtain next_date' wd' where nd: "nd = (next_date', wd')" by (cases nd)
      with Suc.prems ml Inr r
      have "day_loop days self preferences allergens next_date next_date' wd' meal_numbers menu' w1 = (res, w')"
        by simp
      from Suc.IH[OF this] e1 show ?thesis by (rule extends_trans[rotated])
    qed
  qed
qed

lemma update_menu_extends:
  "update_menu self menu preferences allergens date meal_numbers number_of_days goal w = (res, w') \<Longrightarrow>
   extends w w'"
  unfolding update_menu_def Let_def
  by (cases "get_weekday_and_increment date")
     (auto simp: extends_refl dest: day_loop_extends)

lemma catalog_loaded_extends:
  "catalog_loaded self a b w \<Longrightarrow> extends w w' \<Longrightarrow> catalog_loaded self a b w'"
  unfolding catalog_loaded_def
  using extends_frame_at[of w w'] extends_length[of w w'] by auto

text \<open>
  C9.  The constructor leaves the generator with its catalog loaded: the two references
  point to the two query results.  Every call of \<open>update_menu\<close>, whatever it returns or raises,
  and every call of \<open>__get_context\<close> (the merge, both filters and the sampling) leaves the two
  catalog frames as they were; \<open>__get_context\<close> changes no frame that existed before it, the
  rows dropped in place by \<open>filter_allergens\<close> being rows of a frame the call made itself.
\<close>

theorem catalog_never_mutated:
  "(new_menu_generator item_query restaurant_query w0 = (self, w)
      \<longrightarrow> catalog_loaded self item_query restaurant_query w) \<and>
   (catalog_loaded self item_query restaurant_query w \<and>
    update_menu self menu preferences allergens date meal_numbers number_of_days goal w = (res, w')
      \<longrightarrow> catalog_loaded self item_query restaurant_query w') \<and>
   (catalog_loaded self item_query restaurant_query w \<and>
    get_context self allergens weekday order_time num_choices w = (ctx, w'')
      \<longrightarrow> catalog_loaded self item_query restaurant_query w'' \<and>
          (\<forall>r < length (frames w). frame_at w'' r = frame_at w r))"
proof (intro conjI impI)
  assume "new_menu_generator item_query restaurant_query w0 = (self, w)"
  then show "catalog_loaded self item_query restaurant_query w"
    by (auto simp: new_menu_generator_def alloc_def catalog_loaded_def frame_at_def nth_append)
next
  assume "catalog_loaded self item_query restaurant_query w \<and>
    update_menu self menu preferences allergens date meal_numbers number_of_days goal w = (res, w')"
  then show "catalog_loaded self item_query restaurant_query w'"
    using catalog_loaded_extends update_menu_extends by blast
next
  assume a: "catalog_loaded self item_query restaurant_query w \<and>
    get_context self allergens weekday order_time num_choices w = (ctx, w'')"
  then have e: "extends w w''" using get_context_extends by blast
  with a show "catalog_loaded self item_query restaurant_query w''"
    using catalog_loaded_extends by blast
  from e show "\<forall>r < length (frames w). frame_at w'' r = frame_at w r"
    using extends_frame_at by blast
qed

lemma attempt_Chosen:
  assumes "attempt self preferences allergens weekday meal order_time num_choices w = (Chosen v, w')"
  shows "0 < v \<and> (\<exists>ctx item_ids w1 raw.
     get_context self allergens weekday order_time num_choices w = (Inr (ctx, item_ids), w1) \<and>
     generate SYSTEM_TEMPLATE (make_prompt preferences ctx meal) w1 = (raw, w') \<and>
     v = format_llm_output raw \<and> CInt v \<in> set item_ids)"
proof -
  obtain r1 w1 where gc: "get_context self allergens weekday order_time num_choices w = (r1, w1)"
    by (cases "get_context self allergens weekday order_time num_choices w")
  show ?thesis
  proof (cases r1)
    case (Inl e)
    with assms gc show ?thesis by (simp add: attempt_def)
  next
    case (Inr ci)
    obtain ctx item_ids where ci: "ci = (ctx, item_ids)" by (cases ci)
    obtain raw w2 where g: "generate SYSTEM_TEMPLATE (make_prompt preferences ctx meal) w1 = (raw, w2)"
      by (cases "generate SYSTEM_TEMPLATE (make_prompt preferences ctx meal) w1")
    from assms gc Inr ci g
    have "0 < v \<and> w' = w2 \<and> v = format_llm_output raw \<and> CInt v \<in> set item_ids"
      by (auto simp: attempt_def Let_def split: if_splits)
    with gc Inr ci g show ?thesis by auto
  qed
qed

lemma attempt_Invalid:
  assumes "get_context self allergens weekday order_time num_choices w = (Inr (ctx, item_ids), w1)"
    and "generate SYSTEM_TEMPLATE (make_prompt preferences ctx meal) w1 = (raw, w2)"
    and "format_llm_output raw \<le> 0 \<or> CInt (format_llm_output raw) \<notin> set item_ids"
  shows "attempt self preferences allergens weekday meal order_time num_choices w = (Invalid raw, w2)"
  using assms by (auto simp: attempt_def)

lemma pick_loop_Chosen:
  "pick_loop tries self preferences allergens weekday meal order_time num_choices llm_output w = (Inr v, w')
   \<Longrightarrow> \<exists>n wa. attempt self preferences allergens weekday meal order_time n wa = (Chosen v, w')"
proof (induction tries arbitrary: num_choices llm_output w)
  case 0
  then show ?case by simp
next
  case (Suc tries)
  obtain o1 w1 where at: "attempt self preferences allergens weekday meal order_time num_choices w = (o1, w1)"
    by (cases "attempt self preferences allergens weekday meal order_time num_choices w")
  show ?case
  proof (cases o1)
    case (Raised e)
    with Suc.prems at show ?thesis by simp
  next
    case (Chosen u)
    with Suc.prems at have "u = v" "w1 = w'" by simp_all
    with at Chosen show ?thesis by blast
  next
    case (Invalid raw)
    with Suc.prems at
    have "pick_loop tries self preferences allergens weekday meal order_time
            (num_choices + ITEM_CHOICES) raw w1 = (Inr v, w')"
      by simp
    then show ?thesis by (rule Suc.IH)
  qed
qed

text \<open>
  C1.  When \<open>__pick_menu_item\<close> returns an id, the id is positive and is the parse of the
  backend's reply in the last try, whose context offered that id.  A try whose parsed id is
  not positive or not among the ids offered in that try is invalid: the id is not returned,
  and the loop goes on to its next try.
\<close>

theorem pick_menu_item_offered:
  "(pick_menu_item self preferences allergens weekday meal_number w = (Inr v, w') \<longrightarrow>
      0 < v \<and>
      (\<exists>meal order_time num_choices wa ctx item_ids wb raw.
         get_meal_and_order_time meal_number = Inr (meal, order_time) \<and>
         get_context self allergens weekday order_time num_choices wa = (Inr (ctx, item_ids), wb) \<and>
         generate SYSTEM_TEMPLATE (make_prompt preferences ctx meal) wb = (raw, w') \<and>
         v = format_llm_output raw \<and> CInt v \<in> set item_ids)) \<and>
   (get_context self allergens weekday order_time' num_choices' w = (Inr (ctx', item_ids'), w1) \<and>
    generate SYSTEM_TEMPLATE (make_prompt preferences ctx' meal') w1 = (raw', w2) \<and>
    (format_llm_output raw' \<le> 0 \<or> CInt (format_llm_output raw') \<notin> set item_ids') \<longrightarrow>
      attempt self preferences allergens weekday meal' order_time' num_choices' w = (Invalid raw', w2) \<and>
      pick_loop (Suc tries) self preferences allergens weekday meal' order_time' num_choices' llm_output w
        = pick_loop tries self preferences allergens weekday meal' order_time'
            (num_choices' + ITEM_CHOICES) raw' w2)"
proof (intro conjI impI)
  assume a: "pick_menu_item self preferences allergens weekday meal_number w = (Inr v, w')"
  then obtain meal order_time where mo: "get_meal_and_order_time meal_number = Inr (meal, order_time)"
    by (cases "get_meal_and_order_time meal_number") (auto simp: pick_menu_item_def)
  with a have "pick_loop MAX_LLM_TRIES self preferences allergens weekday meal order_time ITEM_CHOICES [] w
      = (Inr v, w')"
    by (simp add: pick_menu_item_def)
  from pick_loop_Chosen[OF this] obtain n wa where
    "attempt self preferences allergens weekday meal order_time n wa = (Chosen v, w')" by blast
  from attempt_Chosen[OF this] mo
  show "0 < v" and "\<exists>meal order_time num_choices wa ctx item_ids wb raw.
         get_meal_and_order_time meal_number = Inr (meal, order_time) \<and>
         get_context self allergens weekday order_time num_choices wa = (Inr (ctx, item_ids), wb) \<and>
         generate SYSTEM_TEMPLATE (make_prompt preferences ctx meal) wb = (raw, w') \<and>
         v = format_llm_output raw \<and> CInt v \<in> set item_ids"
    by blast+
next
  assume b: "get_context self allergens weekday order_time' num_choices' w = (Inr (ctx', item_ids'), w1) \<and>
    generate SYSTEM_TEMPLATE (make_prompt preferences ctx' meal') w1 = (raw', w2) \<and>
    (format_llm_output raw' \<le> 0 \<or> CInt (format_llm_output raw') \<notin> set item_ids')"
  then show inv: "attempt self preferences allergens weekday meal' order_time' num_choices' w = (Invalid raw', w2)"
    using attempt_Invalid by blast
  show "pick_loop (Suc tries) self preferences allergens weekday meal' order_time' num_choices' llm_output w
        = pick_loop tries self preferences allergens weekday meal' order_time'
            (num_choices' + ITEM_CHOICES) raw' w2"
    by (simp add: inv)
qed

lemma max_tries_text: "str_int 3 = ''3''"
  by (simp add: str_int_def digits_of.simps digit_char_def char_of_def bit_Suc_0_iff)

lemma meal_loop_append:
  "meal_loop self preferences allergens date current_weekday (a @ b) menu w =
     (case meal_loop self preferences allergens date current_weekday a menu w of
        (Inl e, w') \<Rightarrow> (Inl e, w')
      | (Inr menu', w') \<Rightarrow> meal_loop self preferences allergens date current_weekday b menu' w')"
proof (induction a arbitrary: menu w)
  case Nil
  then show ?case by simp
next
  case (Cons m a)
  show ?case
  proof (cases "re_search (entry_pattern date m) menu")
    case True
    then show ?thesis by (simp add: Cons.IH)
  next
    case False
    obtain r1 w1 where pk: "pick_menu_item self preferences allergens current_weekday m w = (r1, w1)"
      by (cases "pick_menu_item self preferences allergens current_weekday m w")
    show ?thesis using False pk by (cases r1) (simp_all add: Cons.IH)
  qed
qed

text \<open>
  C2.  \<open>__pick_menu_item\<close> makes at most three tries, with 10, 20 and 30 choices; it returns or
  raises what the first try that is not invalid gives; after three invalid tries it raises
  \<open>RuntimeError\<close> with the raw output of the third.  It calls the backend at most three times.
  An error of a slot ends the loop over the meals of the day, whatever slots come after it,
  and an error of a day ends the loop over the days.
\<close>

theorem pick_menu_item_three_tries:
  assumes "get_meal_and_order_time meal_number = Inr (meal, order_time)"
  shows
  "pick_menu_item self preferences allergens weekday meal_number w =
     (case attempt self preferences allergens weekday meal order_time 10 w of
        (Raised e, w1) \<Rightarrow> (Inl e, w1)
      | (Chosen v, w1) \<Rightarrow> (Inr v, w1)
      | (Invalid raw1, w1) \<Rightarrow>
          (case attempt self preferences allergens weekday meal order_time 20 w1 of
             (Raised e, w2) \<Rightarrow> (Inl e, w2)
           | (Chosen v, w2) \<Rightarrow> (Inr v, w2)
           | (Invalid raw2, w2) \<Rightarrow>
               (case attempt self preferences allergens weekday meal order_time 30 w2 of
                  (Raised e, w3) \<Rightarrow> (Inl e, w3)
                | (Chosen v, w3) \<Rightarrow> (Inr v, w3)
                | (Invalid raw3, w3) \<Rightarrow>
                    (Inl (RuntimeError (''LLM has failed 3 times to generate a meal. Output: '' @ raw3)),
                     w3)))) \<and>
   length (calls (snd (pick_menu_item self preferences allergens weekday meal_number w)))
     \<le> length (calls w) + 3 \<and>
   (meal_loop self preferences allergens date weekday before menu w = (Inr menu1, wa) \<and>
    \<not> re_search (entry_pattern date meal_number) menu1 \<and>
    pick_menu_item self preferences allergens weekday meal_number wa = (Inl err, wb)
      \<longrightarrow> meal_loop self preferences allergens date weekday (before @ meal_number # rest) menu w
            = (Inl err, wb)) \<and>
   (meal_loop self preferences allergens date weekday meal_numbers menu w = (Inl err, wb)
      \<longrightarrow> day_loop (Suc days) self preferences allergens date next_date weekday meal_numbers menu w
            = (Inl err, wb))"
proof (intro conjI impI)
  show "pick_menu_item self preferences allergens weekday meal_number w =
     (case attempt self preferences allergens weekday meal order_time 10 w of
        (Raised e, w1) \<Rightarrow> (Inl e, w1)
      | (Chosen v, w1) \<Rightarrow> (Inr v, w1)
      | (Invalid raw1, w1) \<Rightarrow>
          (case attempt self preferences allergens weekday meal order_time 20 w1 of
             (Raised e, w2) \<Rightarrow> (Inl e, w2)
           | (Chosen v, w2) \<Rightarrow> (Inr v, w2)
           | (Invalid raw2, w2) \<Rightarrow>
               (case attempt self preferences allergens weekday meal order_time 30 w2 of
                  (Raised e, w3) \<Rightarrow> (Inl e, w3)
                | (Chosen v, w3) \<Rightarrow> (Inr v, w3)
                | (Invalid raw3, w3) \<Rightarrow>
                    (Inl (RuntimeError (''LLM has failed 3 times to generate a meal. Output: '' @ raw3)),
                     w3))))"
    using assms
    by (simp add: pick_menu_item_def MAX_LLM_TRIES_def numeral_3_eq_3 ITEM_CHOICES_def
        max_tries_text
        split: prod.splits outcome.splits)
next
  show "length (calls (snd (pick_menu_item self preferences allergens weekday meal_number w)))
     \<le> length (calls w) + 3"
    using pick_menu_item_extends[of self preferences allergens weekday meal_number w
        "fst (pick_menu_item self preferences allergens weekday meal_number w)"
        "snd (pick_menu_item self preferences allergens weekday meal_number w)"]
    by simp
next
  assume "meal_loop self preferences allergens date weekday before menu w = (Inr menu1, wa) \<and>
    \<not> re_search (entry_pattern date meal_number) menu1 \<and>
    pick_menu_item self preferences allergens weekday meal_number wa = (Inl err, wb)"
  then show "meal_loop self preferences allergens date weekday (before @ meal_number # rest) menu w
            = (Inl err, wb)"
    by (simp add: meal_loop_append)
next
  assume "meal_loop self preferences allergens date weekday meal_numbers menu w = (Inl err, wb)"
  then show "day_loop (Suc days) self preferences allergens date next_date weekday meal_numbers menu w
            = (Inl err, wb)"
    by simp
qed

lemma demo_pick: "fst (pick_menu_item demo_generator ''cheap'' ''peanuts'' ''Mon'' 1 demo_world) = Inr 100"
  by code_simp

theorem catalog_never_mutated_witness:
  "catalog_loaded demo_generator (frame_at demo_world 0) (frame_at demo_world 1) demo_world \<and>
   catalog_loaded demo_generator (frame_at demo_world 0) (frame_at demo_world 1)
     (snd (update_menu demo_generator (Some []) ''cheap'' ''peanuts'' ''2025-10-27'' [1, 2, 3] 7 [] demo_world))"
proof -
  have c: "catalog_loaded demo_generator (frame_at demo_world 0) (frame_at demo_world 1) demo_world"
    by (simp add: catalog_loaded_def demo_generator_def demo_world_def)
  have u: "update_menu demo_generator (Some []) ''cheap'' ''peanuts'' ''2025-10-27'' [1, 2, 3] 7 [] demo_world
      = (fst (update_menu demo_generator (Some []) ''cheap'' ''peanuts'' ''2025-10-27'' [1, 2, 3] 7 [] demo_world),
         snd (update_menu demo_generator (Some []) ''cheap'' ''peanuts'' ''2025-10-27'' [1, 2, 3] 7 [] demo_world))"
    by simp
  from catalog_never_mutated [THEN conjunct2, THEN conjunct1, THEN mp, OF conjI [OF c u]] c
  show ?thesis by (intro conjI)
qed

theorem pick_menu_item_offered_witness:
  "fst (pick_menu_item demo_generator ''cheap'' ''peanuts'' ''Mon'' 1 demo_world) = Inr 100 \<and>
   (\<exists>meal order_time num_choices wa ctx item_ids wb raw.
      get_meal_and_order_time 1 = Inr (meal, order_time) \<and>
      get_context demo_generator ''peanuts'' ''Mon'' order_time num_choices wa = (Inr (ctx, item_ids), wb) \<and>
      generate SYSTEM_TEMPLATE (make_prompt ''cheap'' ctx meal) wb
        = (raw, snd (pick_menu_item demo_generator ''cheap'' ''peanuts'' ''Mon'' 1 demo_world)) \<and>
      100 = format_llm_output raw \<and> CInt 100 \<in> set item_ids)"
proof -
  have e: "pick_menu_item demo_generator ''cheap'' ''peanuts'' ''Mon'' 1 demo_world
      = (Inr 100, snd (pick_menu_item demo_generator ''cheap'' ''peanuts'' ''Mon'' 1 demo_world))"
    using demo_pick by (simp add: prod_eq_iff)
  from pick_menu_item_offered [THEN conjunct1, THEN mp, OF e] demo_pick
  show ?thesis by (intro conjI) (elim conjE, assumption)+
qed

theorem pick_menu_item_three_tries_witness:
  "get_meal_and_order_time 1 = Inr (''breakfast'', 1000) \<and>
   length (calls (snd (pick_menu_item demo_generator ''cheap'' ''peanuts'' ''Mon'' 1 demo_world)))
     \<le> length (calls demo_world) + 3"
proof -
  have h: "get_meal_and_order_time 1 = Inr (''breakfast'', 1000)"
    by (simp add: get_meal_and_order_time_def BREAKFAST_TIME_def)
  from pick_menu_item_three_tries [OF h, THEN conjunct2, THEN conjunct1] h
  show ?thesis by (intro conjI)
qed

section \<open>The plan: properties\<close>










































lemma piece_text_nonempty: "piece_groups p \<noteq> [] \<Longrightarrow> piece_text p \<noteq> []"
  by (cases p) (simp_all add: new_entry_def)
















text \<open>
  For a year before 1000 the writer and the reader part: the day after 0099-01-01 is printed
  as \<open>99-01-02\<close>, and an entry with that date is not one the reader's pattern matches.
\<close>

lemma short_year_not_read_back:
  "get_weekday_and_increment ''0099-01-01'' = Inr (''99-01-02'', ''Thu'') \<and>
   new_entry ''99-01-02'' 5 1 = ''[99-01-02,5,1]'' \<and>
   findall_entries ''[99-01-02,5,1]'' = [] \<and>
   parse_generated_menu (Some ''[99-01-02,5,1]'') ''99-01-02'' = None"
  by code_simp









end
